theory Spec2Isabelle
  imports Complex_Main "HOL-Library.Word"
begin

section \<open>The pretty-printing JSON writer of \<^verbatim>\<open>src/tm_json_writer.h\<close>\<close>

text \<open>
  \<^verbatim>\<open>PrettyWriter\<close> derives from rapidjson's \<^verbatim>\<open>Writer\<close>. The derived class decides which
  separators, newlines and indentation go to the output stream before each value; the
  base class encodes the value itself. The model keeps that split: the output stream
  \<^verbatim>\<open>os_\<close> is the chronological list of what was done to it, where a character put by
  \<^verbatim>\<open>PrettyWriter\<close> itself is a \<open>Put\<close>, a call of one of the base class's
  \<^verbatim>\<open>Write...\<close> encoders is a \<open>Write\<close> of that call, and \<^verbatim>\<open>os_.Flush()\<close> is \<open>Flush\<close>.
\<close>

subsection \<open>Data\<close>

text \<open>
  A \<^verbatim>\<open>double\<close>, as far as \<^verbatim>\<open>Double(double)\<close> looks at it: not-a-number, one of the two
  infinities, or a finite value (the two zeros are not told apart: both compare equal
  to 0). The three operations the method uses follow IEEE 754.
\<close>

datatype double = DNaN | DPosInf | DNegInf | DFinite rat

text \<open>\<^verbatim>\<open>a != b\<close>: true as soon as one side is not-a-number.\<close>

fun double_ne :: "double \<Rightarrow> double \<Rightarrow> bool" where
  "double_ne DNaN _ = True"
| "double_ne _ DNaN = True"
| "double_ne a b = (a \<noteq> b)"

text \<open>\<^verbatim>\<open>d > 0\<close> and \<^verbatim>\<open>d < 0\<close>: false on not-a-number.\<close>

fun double_gt0 :: "double \<Rightarrow> bool" where
  "double_gt0 DNaN = False"
| "double_gt0 DPosInf = True"
| "double_gt0 DNegInf = False"
| "double_gt0 (DFinite r) = (r > 0)"

fun double_lt0 :: "double \<Rightarrow> bool" where
  "double_lt0 DNaN = False"
| "double_lt0 DPosInf = False"
| "double_lt0 DNegInf = True"
| "double_lt0 (DFinite r) = (r < 0)"

text \<open>
  \<^verbatim>\<open>d/d\<close>: not-a-number for not-a-number, for an infinity and for zero; exactly 1 for
  every other finite value.
\<close>

fun double_div_self :: "double \<Rightarrow> double" where
  "double_div_self (DFinite r) = (if r = 0 then DNaN else DFinite 1)"
| "double_div_self _ = DNaN"

text \<open>
  The argument of \<^verbatim>\<open>PrettyPrefix\<close>: rapidjson's \<^verbatim>\<open>enum Type\<close>, with the seven
  enumerators that the source passes or compares with.
\<close>

datatype Type = kNullType | kFalseType | kTrueType | kObjectType | kArrayType
  | kStringType | kNumberType

text \<open>
  The calls of the base class's encoders. \<^verbatim>\<open>WriteDouble\<close> formats with the precision
  that is configured when it is called, so the call records it. An \<^verbatim>\<open>int\<close> or
  \<^verbatim>\<open>int64_t\<close> is the word of its two's complement bits (\<open>sint\<close> reads it).
\<close>

datatype token =
    WriteNull
  | WriteBool bool
  | WriteInt "32 word"
  | WriteUint "32 word"
  | WriteInt64 "64 word"
  | WriteUint64 "64 word"
  | WriteDouble double "32 word"
  | WriteString string
  | WriteStartObject
  | WriteEndObject
  | WriteStartArray
  | WriteEndArray

datatype sink_op = Put char | Write token | Flush

text \<open>
  Modelled from the spec: \<^verbatim>\<open>Base::Level\<close> is declared in the base class's header, which
  is not in the source. The spec's frame records whether the container is an array and
  an unsigned count of the values emitted directly inside it, 0 when the frame is
  pushed. The source uses the fields as \<^verbatim>\<open>inArray\<close> and \<^verbatim>\<open>valueCount\<close>. The count is
  taken as 64 bits wide; \<^verbatim>\<open>valueCount++\<close> wraps around as unsigned arithmetic does, and
  no property below depends on the width.
\<close>

record Level =
  inArray :: bool
  valueCount :: "64 word"

text \<open>
  The writer: the fields of \<^verbatim>\<open>PrettyWriter\<close> and those of the base class it uses.
  A field keeps its name without the trailing underscore of the source (\<open>os\<close> is
  \<^verbatim>\<open>os_\<close>). \<open>indentation\<close> is the C string without its terminating NUL.

  Modelled from the spec: \<^verbatim>\<open>level_stack_\<close> is the base class's stack of \<^verbatim>\<open>Level\<close>, whose
  class is not in the source; the spec has a pushdown stack of frames with the
  innermost open container on top. Here it is a list with the top first:
  \<^verbatim>\<open>Push\<close> is \<open>#\<close>, \<^verbatim>\<open>Top\<close> is \<open>hd\<close>, \<^verbatim>\<open>Pop(1)\<close> leaves \<open>tl\<close> and hands the former top
  back, \<^verbatim>\<open>GetSize() / sizeof(Level)\<close> is \<open>length\<close>, and \<^verbatim>\<open>Empty()\<close> and
  \<^verbatim>\<open>GetSize() == 0\<close> are \<open>= []\<close>.
\<close>

record PrettyWriter =
  os :: "sink_op list"
  level_stack :: "Level list"
  doublePrecision :: "32 word"
  indentation :: string
  indentCharCount :: "32 word"

text \<open>
  What stops a call: a failed \<^verbatim>\<open>RAPIDJSON_ASSERT\<close>, or a read of \<^verbatim>\<open>indentation_\<close>
  beyond its terminating NUL, which C++ leaves undefined.
\<close>

datatype error = AssertionFailed | OutOfBoundsRead

type_synonym 'a result = "error + 'a"

definition bind :: "'a result \<Rightarrow> ('a \<Rightarrow> 'b result) \<Rightarrow> 'b result" where
  "bind m f = (case m of Inl e \<Rightarrow> Inl e | Inr x \<Rightarrow> f x)"

text \<open>
  Modelled from the spec: the macro \<^verbatim>\<open>RAPIDJSON_ASSERT\<close> is defined in rapidjson's
  \<^verbatim>\<open>rapidjson.h\<close>; the spec makes a violated assertion an immediate
  assertion/panic-class failure.
\<close>

definition RAPIDJSON_ASSERT :: "bool \<Rightarrow> 'a \<Rightarrow> 'a result" where
  "RAPIDJSON_ASSERT c x = (if c then Inr x else Inl AssertionFailed)"

subsection \<open>The constructor and the configuration\<close>

text \<open>
  The constructor, lines 31-32. The precision the base class starts with is not in the
  source, so it is a parameter.
\<close>

definition PrettyWriter_new :: "32 word \<Rightarrow> PrettyWriter" where
  "PrettyWriter_new p =
     \<lparr>os = [], level_stack = [], doublePrecision = p,
      indentation = [], indentCharCount = 0\<rparr>"

definition SetIndent :: "string \<Rightarrow> 32 word \<Rightarrow> PrettyWriter \<Rightarrow> PrettyWriter" where
  "SetIndent indentation' indentCharCount' w =
     w\<lparr>indentation := indentation', indentCharCount := indentCharCount'\<rparr>"

text \<open>
  Modelled from the spec: \<^verbatim>\<open>Base::GetDoublePrecision\<close> and \<^verbatim>\<open>Base::SetDoublePrecision\<close>
  are the base class's; the spec requires a gettable and settable double-formatting
  precision.
\<close>

definition GetDoublePrecision :: "PrettyWriter \<Rightarrow> 32 word" where
  "GetDoublePrecision w = doublePrecision w"

definition SetDoublePrecision :: "32 word \<Rightarrow> PrettyWriter \<Rightarrow> PrettyWriter" where
  "SetDoublePrecision p w = w\<lparr>doublePrecision := p\<rparr>"

subsection \<open>The output stream\<close>

definition os_Put :: "char \<Rightarrow> PrettyWriter \<Rightarrow> PrettyWriter" where
  "os_Put c w = w\<lparr>os := os w @ [Put c]\<rparr>"

definition os_Flush :: "PrettyWriter \<Rightarrow> PrettyWriter" where
  "os_Flush w = w\<lparr>os := os w @ [Flush]\<rparr>"

definition Base_Write :: "token \<Rightarrow> PrettyWriter \<Rightarrow> PrettyWriter" where
  "Base_Write t w = w\<lparr>os := os w @ [Write t]\<rparr>"

text \<open>\<^verbatim>\<open>Put\<close> of each character of a literal, in order.\<close>

fun os_Puts :: "string \<Rightarrow> PrettyWriter \<Rightarrow> PrettyWriter" where
  "os_Puts [] w = w"
| "os_Puts (c # cs) w = os_Puts cs (os_Put c w)"

subsection \<open>\<^verbatim>\<open>WriteIndent\<close>, lines 176-181\<close>

text \<open>
  \<^verbatim>\<open>indentation_[i]\<close>: a character of the string, its terminating NUL at
  \<open>i = length\<close>, undefined beyond.
\<close>

definition indentation_at :: "string \<Rightarrow> nat \<Rightarrow> char result" where
  "indentation_at s i =
     (if i < length s then Inr (s ! i)
      else if i = length s then Inr (CHR 0x00)
      else Inl OutOfBoundsRead)"

text \<open>A counting \<^verbatim>\<open>for\<close> loop over the given indices that stops at the first failure.\<close>

primrec for_loop :: "nat list \<Rightarrow> (nat \<Rightarrow> 's \<Rightarrow> 's result) \<Rightarrow> 's \<Rightarrow> 's result" where
  "for_loop [] body s = Inr s"
| "for_loop (i # is) body s = bind (body i s) (for_loop is body)"

definition WriteIndent :: "PrettyWriter \<Rightarrow> PrettyWriter result" where
  "WriteIndent w =
     (let count = length (level_stack w) in
      for_loop [0..<count] (\<lambda>j w.
        for_loop [0..<unat (indentCharCount w)] (\<lambda>i w.
          bind (indentation_at (indentation w) i) (\<lambda>c. Inr (os_Put c w))) w) w)"

subsection \<open>\<^verbatim>\<open>PrettyPrefix\<close>, lines 136-174\<close>

definition newline_if_indenting :: "PrettyWriter \<Rightarrow> PrettyWriter" where
  "newline_if_indenting w = (if indentCharCount w > 0 then os_Put (CHR 0x0A) w else w)"

definition PrettyPrefix :: "Type \<Rightarrow> PrettyWriter \<Rightarrow> PrettyWriter result" where
  "PrettyPrefix type w =
     (case level_stack w of
        [] \<Rightarrow> Inr w
      | level # rest \<Rightarrow>
          bind
            (if inArray level then
               WriteIndent
                 (if valueCount level > 0
                  then newline_if_indenting (os_Put (CHR '','') w)
                  else newline_if_indenting w)
             else
               (let w1 =
                  (if valueCount level > 0 then
                     (if valueCount level mod 2 = 0
                      then newline_if_indenting (os_Put (CHR '','') w)
                      else (let w' = os_Put (CHR '':'') w
                            in if indentCharCount w' > 0 then os_Put (CHR '' '') w' else w'))
                   else newline_if_indenting w)
                in if valueCount level mod 2 = 0 then WriteIndent w1 else Inr w1))
            (\<lambda>w2.
               bind
                 (if \<not> inArray level \<and> valueCount level mod 2 = 0
                  then RAPIDJSON_ASSERT (type = kStringType) w2
                  else Inr w2)
                 (\<lambda>w3. Inr (w3\<lparr>level_stack :=
                                 level\<lparr>valueCount := valueCount level + 1\<rparr> # rest\<rparr>))))"

subsection \<open>The handler methods, lines 53-118, and the precision overload, lines 129-132\<close>

definition Null :: "PrettyWriter \<Rightarrow> PrettyWriter result" where
  "Null w = bind (PrettyPrefix kNullType w) (\<lambda>w. Inr (Base_Write WriteNull w))"

definition Bool :: "bool \<Rightarrow> PrettyWriter \<Rightarrow> PrettyWriter result" where
  "Bool b w =
     bind (PrettyPrefix (if b then kTrueType else kFalseType) w)
       (\<lambda>w. Inr (Base_Write (WriteBool b) w))"

text \<open>\<^verbatim>\<open>Int(int)\<close>; \<open>Int\<close> is taken in HOL, so it is \<open>Int32\<close> here.\<close>

definition Int32 :: "32 word \<Rightarrow> PrettyWriter \<Rightarrow> PrettyWriter result" where
  "Int32 i w = bind (PrettyPrefix kNumberType w) (\<lambda>w. Inr (Base_Write (WriteInt i) w))"

definition Uint :: "32 word \<Rightarrow> PrettyWriter \<Rightarrow> PrettyWriter result" where
  "Uint u w = bind (PrettyPrefix kNumberType w) (\<lambda>w. Inr (Base_Write (WriteUint u) w))"

definition Int64 :: "64 word \<Rightarrow> PrettyWriter \<Rightarrow> PrettyWriter result" where
  "Int64 i64 w = bind (PrettyPrefix kNumberType w) (\<lambda>w. Inr (Base_Write (WriteInt64 i64) w))"

definition Uint64 :: "64 word \<Rightarrow> PrettyWriter \<Rightarrow> PrettyWriter result" where
  "Uint64 u64 w = bind (PrettyPrefix kNumberType w) (\<lambda>w. Inr (Base_Write (WriteUint64 u64) w))"

definition Double :: "double \<Rightarrow> PrettyWriter \<Rightarrow> PrettyWriter result" where
  "Double d w =
     (if double_ne d d then Inr (os_Puts ''NaN'' w)
      else if double_gt0 d \<and> double_ne (double_div_self d) (double_div_self d)
        then Inr (os_Puts ''Infinity'' w)
      else if double_lt0 d \<and> double_ne (double_div_self d) (double_div_self d)
        then Inr (os_Puts ''-Infinity'' w)
      else bind (PrettyPrefix kNumberType w)
             (\<lambda>w. Inr (Base_Write (WriteDouble d (doublePrecision w)) w)))"

definition String :: "string \<Rightarrow> PrettyWriter \<Rightarrow> PrettyWriter result" where
  "String str w = bind (PrettyPrefix kStringType w) (\<lambda>w. Inr (Base_Write (WriteString str) w))"

definition StartObject :: "PrettyWriter \<Rightarrow> PrettyWriter result" where
  "StartObject w =
     bind (PrettyPrefix kObjectType w) (\<lambda>w.
       Inr (Base_Write WriteStartObject
              (w\<lparr>level_stack := \<lparr>inArray = False, valueCount = 0\<rparr> # level_stack w\<rparr>)))"

definition EndObject :: "PrettyWriter \<Rightarrow> PrettyWriter result" where
  "EndObject w =
     bind (RAPIDJSON_ASSERT (level_stack w \<noteq> []) w) (\<lambda>w.
     bind (RAPIDJSON_ASSERT (\<not> inArray (hd (level_stack w))) w) (\<lambda>w.
       (let empty = (valueCount (hd (level_stack w)) = 0);
            w = w\<lparr>level_stack := tl (level_stack w)\<rparr>
        in bind (if \<not> empty then WriteIndent (newline_if_indenting w) else Inr w) (\<lambda>w.
             (let w = Base_Write WriteEndObject w
              in Inr (if level_stack w = [] then os_Flush w else w))))))"

definition StartArray :: "PrettyWriter \<Rightarrow> PrettyWriter result" where
  "StartArray w =
     bind (PrettyPrefix kArrayType w) (\<lambda>w.
       Inr (Base_Write WriteStartArray
              (w\<lparr>level_stack := \<lparr>inArray = True, valueCount = 0\<rparr> # level_stack w\<rparr>)))"

definition EndArray :: "PrettyWriter \<Rightarrow> PrettyWriter result" where
  "EndArray w =
     bind (RAPIDJSON_ASSERT (level_stack w \<noteq> []) w) (\<lambda>w.
     bind (RAPIDJSON_ASSERT (inArray (hd (level_stack w))) w) (\<lambda>w.
       (let empty = (valueCount (hd (level_stack w)) = 0);
            w = w\<lparr>level_stack := tl (level_stack w)\<rparr>
        in bind (if \<not> empty then WriteIndent (newline_if_indenting w) else Inr w) (\<lambda>w.
             (let w = Base_Write WriteEndArray w
              in Inr (if level_stack w = [] then os_Flush w else w))))))"

definition Double_precision :: "double \<Rightarrow> 32 word \<Rightarrow> PrettyWriter \<Rightarrow> PrettyWriter result" where
  "Double_precision d precision w =
     (let oldPrecision = GetDoublePrecision w
      in bind (Double d (SetDoublePrecision precision w))
           (\<lambda>w. Inr (SetDoublePrecision oldPrecision w)))"

subsection \<open>Sequences of calls\<close>

text \<open>The emission calls a caller can make, and a run of them that stops at the first failure.\<close>

datatype call =
    NullCall
  | BoolCall bool
  | IntCall "32 word"
  | UintCall "32 word"
  | Int64Call "64 word"
  | Uint64Call "64 word"
  | DoubleCall double
  | DoublePrecisionCall double "32 word"
  | StringCall string
  | StartObjectCall
  | StartArrayCall
  | EndObjectCall
  | EndArrayCall

fun do_call :: "call \<Rightarrow> PrettyWriter \<Rightarrow> PrettyWriter result" where
  "do_call NullCall w = Null w"
| "do_call (BoolCall b) w = Bool b w"
| "do_call (IntCall i) w = Int32 i w"
| "do_call (UintCall u) w = Uint u w"
| "do_call (Int64Call i) w = Int64 i w"
| "do_call (Uint64Call u) w = Uint64 u w"
| "do_call (DoubleCall d) w = Double d w"
| "do_call (DoublePrecisionCall d p) w = Double_precision d p w"
| "do_call (StringCall s) w = String s w"
| "do_call StartObjectCall w = StartObject w"
| "do_call StartArrayCall w = StartArray w"
| "do_call EndObjectCall w = EndObject w"
| "do_call EndArrayCall w = EndArray w"

fun do_calls :: "call list \<Rightarrow> PrettyWriter \<Rightarrow> PrettyWriter result" where
  "do_calls [] w = Inr w"
| "do_calls (c # cs) w = bind (do_call c w) (do_calls cs)"

subsection \<open>Vocabulary of the properties\<close>

text \<open>The doubles that \<^verbatim>\<open>Double(double)\<close> writes as a literal token of its own.\<close>

fun nonfinite :: "double \<Rightarrow> bool" where
  "nonfinite (DFinite r) = False"
| "nonfinite _ = True"

fun nonfinite_token :: "double \<Rightarrow> string" where
  "nonfinite_token DNaN = ''NaN''"
| "nonfinite_token DPosInf = ''Infinity''"
| "nonfinite_token DNegInf = ''-Infinity''"
| "nonfinite_token (DFinite r) = []"

text \<open>
  The calls that emit a value through \<^verbatim>\<open>PrettyPrefix\<close>: every primitive and container
  start, except a double that is not finite. For such a call: the type it passes to
  \<^verbatim>\<open>PrettyPrefix\<close>, the base-class encoder it calls, and the frames it pushes.
\<close>

fun prefixed_call :: "call \<Rightarrow> bool" where
  "prefixed_call (DoubleCall d) = (\<not> nonfinite d)"
| "prefixed_call (DoublePrecisionCall d p) = (\<not> nonfinite d)"
| "prefixed_call EndObjectCall = False"
| "prefixed_call EndArrayCall = False"
| "prefixed_call _ = True"

fun call_type :: "call \<Rightarrow> Type" where
  "call_type NullCall = kNullType"
| "call_type (BoolCall b) = (if b then kTrueType else kFalseType)"
| "call_type (StringCall s) = kStringType"
| "call_type StartObjectCall = kObjectType"
| "call_type EndObjectCall = kObjectType"
| "call_type StartArrayCall = kArrayType"
| "call_type EndArrayCall = kArrayType"
| "call_type _ = kNumberType"

fun call_token :: "call \<Rightarrow> PrettyWriter \<Rightarrow> token" where
  "call_token NullCall w = WriteNull"
| "call_token (BoolCall b) w = WriteBool b"
| "call_token (IntCall i) w = WriteInt i"
| "call_token (UintCall u) w = WriteUint u"
| "call_token (Int64Call i) w = WriteInt64 i"
| "call_token (Uint64Call u) w = WriteUint64 u"
| "call_token (DoubleCall d) w = WriteDouble d (doublePrecision w)"
| "call_token (DoublePrecisionCall d p) w = WriteDouble d p"
| "call_token (StringCall s) w = WriteString s"
| "call_token StartObjectCall w = WriteStartObject"
| "call_token StartArrayCall w = WriteStartArray"
| "call_token EndObjectCall w = WriteEndObject"
| "call_token EndArrayCall w = WriteEndArray"

fun call_pushes :: "call \<Rightarrow> Level list" where
  "call_pushes StartObjectCall = [\<lparr>inArray = False, valueCount = 0\<rparr>]"
| "call_pushes StartArrayCall = [\<lparr>inArray = True, valueCount = 0\<rparr>]"
| "call_pushes _ = []"

text \<open>
  What one pass of the inner loop of \<^verbatim>\<open>WriteIndent\<close> reads: the first
  \<^verbatim>\<open>indentCharCount_\<close> characters of the C string, its NUL included when the count
  is one more than its length. \<open>indent_text w depth\<close> is what \<^verbatim>\<open>WriteIndent\<close> puts for
  \<open>depth\<close> open containers.
\<close>

definition level_indent :: "PrettyWriter \<Rightarrow> string" where
  "level_indent w = take (unat (indentCharCount w)) (indentation w @ [CHR 0x00])"

definition indent_text :: "PrettyWriter \<Rightarrow> nat \<Rightarrow> sink_op list" where
  "indent_text w depth = map Put (concat (replicate depth (level_indent w)))"

definition newline_text :: "PrettyWriter \<Rightarrow> sink_op list" where
  "newline_text w = (if indentCharCount w > 0 then [Put (CHR 0x0A)] else [])"

text \<open>No read of \<^verbatim>\<open>indentation_\<close> by \<^verbatim>\<open>WriteIndent\<close> goes beyond the terminating NUL.\<close>

definition indent_in_range :: "PrettyWriter \<Rightarrow> bool" where
  "indent_in_range w = (unat (indentCharCount w) \<le> Suc (length (indentation w)))"

text \<open>
  The indentation as the specification words it: the configured unit, verbatim, the
  configured number of times for each level.
\<close>

definition spec_indent_text :: "string \<Rightarrow> 32 word \<Rightarrow> nat \<Rightarrow> sink_op list" where
  "spec_indent_text unit repeatCount depth =
     map Put (concat (replicate depth (concat (replicate (unat repeatCount) unit))))"

text \<open>
  Modelled from the spec: the structural encoders \<^verbatim>\<open>WriteStartObject\<close>,
  \<^verbatim>\<open>WriteEndObject\<close>, \<^verbatim>\<open>WriteStartArray\<close> and \<^verbatim>\<open>WriteEndArray\<close> are the base class's; the
  spec has them write the raw braces and brackets. \<open>rendered enc ops\<close> is the text in
  the sink, given the text \<open>enc\<close> of every other encoder call.
\<close>

fun rendered_op :: "(token \<Rightarrow> string) \<Rightarrow> sink_op \<Rightarrow> string" where
  "rendered_op enc (Put c) = [c]"
| "rendered_op enc Flush = []"
| "rendered_op enc (Write WriteStartObject) = ''{''"
| "rendered_op enc (Write WriteEndObject) = ''}''"
| "rendered_op enc (Write WriteStartArray) = ''[''"
| "rendered_op enc (Write WriteEndArray) = '']''"
| "rendered_op enc (Write t) = enc t"

definition rendered :: "(token \<Rightarrow> string) \<Rightarrow> sink_op list \<Rightarrow> string" where
  "rendered enc ops = concat (map (rendered_op enc) ops)"

section \<open>Properties\<close>

subsection \<open>Auxiliary facts\<close>

lemma bind_Inr [simp]: "bind (Inr x) f = f x"
  by (simp add: bind_def)

lemma bind_Inl [simp]: "bind (Inl e) f = Inl e"
  by (simp add: bind_def)

text \<open>The inner and the outer loop of \<^verbatim>\<open>WriteIndent\<close>, and what the method does as a whole.\<close>

lemma for_inner:
  "\<forall>i\<in>set is. i \<le> length (indentation w) \<Longrightarrow>
   for_loop is (\<lambda>i w'. bind (indentation_at (indentation w') i) (\<lambda>c. Inr (os_Put c w'))) w
     = Inr (w\<lparr>os := os w @ map (\<lambda>i. Put ((indentation w @ [CHR 0x00]) ! i)) is\<rparr>)"
proof (induction "is" arbitrary: w)
  case Nil
  show ?case by simp
next
  case (Cons i "is")
  have r: "indentation_at (indentation w) i = Inr ((indentation w @ [CHR 0x00]) ! i)"
    using Cons.prems by (auto simp: indentation_at_def nth_append)
  have p: "\<forall>k\<in>set is. k \<le> length (indentation (os_Put ((indentation w @ [CHR 0x00]) ! i) w))"
    using Cons.prems by (simp add: os_Put_def)
  show ?case
    by (simp add: r Cons.IH [OF p]) (simp add: os_Put_def)
qed

lemma for_inner_fail:
  "\<exists>i\<in>set is. length (indentation w) < i \<Longrightarrow>
   for_loop is (\<lambda>i w'. bind (indentation_at (indentation w') i) (\<lambda>c. Inr (os_Put c w'))) w
     = Inl OutOfBoundsRead"
proof (induction "is" arbitrary: w)
  case Nil
  then show ?case by simp
next
  case (Cons i "is")
  show ?case
  proof (cases "length (indentation w) < i")
    case True
    then show ?thesis by (simp add: indentation_at_def)
  next
    case False
    then have r: "indentation_at (indentation w) i = Inr ((indentation w @ [CHR 0x00]) ! i)"
      by (auto simp: indentation_at_def nth_append)
    from False Cons.prems
    have p: "\<exists>k\<in>set is. length (indentation (os_Put ((indentation w @ [CHR 0x00]) ! i) w)) < k"
      by (auto simp: os_Put_def)
    show ?thesis by (simp add: r Cons.IH [OF p])
  qed
qed

lemma map_nth_upt_take: "n \<le> length xs \<Longrightarrow> map (\<lambda>i. xs ! i) [0..<n] = take n xs"
  by (simp add: list_eq_iff_nth_eq)

lemma inner_loop_eq:
  "for_loop [0..<unat (indentCharCount w)]
     (\<lambda>i w'. bind (indentation_at (indentation w') i) (\<lambda>c. Inr (os_Put c w'))) w
   = (if indent_in_range w then Inr (w\<lparr>os := os w @ map Put (level_indent w)\<rparr>)
      else Inl OutOfBoundsRead)"
proof (cases "indent_in_range w")
  case True
  then have a: "\<forall>i\<in>set [0..<unat (indentCharCount w)]. i \<le> length (indentation w)"
    by (auto simp: indent_in_range_def)
  have "map (\<lambda>i. Put ((indentation w @ [CHR 0x00]) ! i)) [0..<unat (indentCharCount w)]
        = map Put (map (\<lambda>i. (indentation w @ [CHR 0x00]) ! i) [0..<unat (indentCharCount w)])"
    by simp
  also have "\<dots> = map Put (level_indent w)"
    using True by (simp add: level_indent_def map_nth_upt_take indent_in_range_def)
  finally show ?thesis using True by (simp add: for_inner [OF a])
next
  case False
  then have "\<exists>i\<in>set [0..<unat (indentCharCount w)]. length (indentation w) < i"
    by (auto simp: indent_in_range_def intro!: bexI [of _ "Suc (length (indentation w))"])
  then show ?thesis using False by (simp add: for_inner_fail)
qed


lemma level_indent_os [simp]: "level_indent (w\<lparr>os := x\<rparr>) = level_indent w"
  by (simp add: level_indent_def)

lemma indent_in_range_os [simp]: "indent_in_range (w\<lparr>os := x\<rparr>) = indent_in_range w"
  by (simp add: indent_in_range_def)

lemma outer_loop_eq:
  "for_loop js (\<lambda>j w'. if indent_in_range w'
                        then Inr (w'\<lparr>os := os w' @ map Put (level_indent w')\<rparr>)
                        else Inl OutOfBoundsRead) w
   = (if js = [] \<or> indent_in_range w
      then Inr (w\<lparr>os := os w @ map Put (concat (replicate (length js) (level_indent w)))\<rparr>)
      else Inl OutOfBoundsRead)"
  by (induction js arbitrary: w) simp_all

lemma WriteIndent_eq:
  "WriteIndent w =
     (if level_stack w = [] \<or> indent_in_range w
      then Inr (w\<lparr>os := os w @ indent_text w (length (level_stack w))\<rparr>)
      else Inl OutOfBoundsRead)"
  by (simp add: WriteIndent_def inner_loop_eq outer_loop_eq indent_text_def)

text \<open>\<^verbatim>\<open>PrettyPrefix\<close> in each of its four situations.\<close>

lemma newline_if_indenting_eq: "newline_if_indenting w = w\<lparr>os := os w @ newline_text w\<rparr>"
  by (simp add: newline_if_indenting_def newline_text_def os_Put_def)

lemma indent_text_os [simp]: "indent_text (w\<lparr>os := x\<rparr>) = indent_text w"
  by (simp add: indent_text_def fun_eq_iff)

lemma newline_text_os [simp]: "newline_text (w\<lparr>os := x\<rparr>) = newline_text w"
  by (simp add: newline_text_def)

lemma PrettyPrefix_root: "level_stack w = [] \<Longrightarrow> PrettyPrefix t w = Inr w"
  by (simp add: PrettyPrefix_def)

lemma PrettyPrefix_array:
  "level_stack w = level # rest \<Longrightarrow> inArray level \<Longrightarrow>
   PrettyPrefix t w =
     (if indent_in_range w
      then Inr (w\<lparr>os := os w @ (if valueCount level > 0 then [Put (CHR '','')] else [])
                          @ newline_text w @ indent_text w (Suc (length rest)),
                level_stack := level\<lparr>valueCount := valueCount level + 1\<rparr> # rest\<rparr>)
      else Inl OutOfBoundsRead)"
  by (simp add: PrettyPrefix_def WriteIndent_eq newline_if_indenting_eq os_Put_def)

lemma PrettyPrefix_key:
  "level_stack w = level # rest \<Longrightarrow> \<not> inArray level \<Longrightarrow> valueCount level mod 2 = 0 \<Longrightarrow>
   PrettyPrefix t w =
     (if indent_in_range w
      then (if t = kStringType
            then Inr (w\<lparr>os := os w @ (if valueCount level > 0 then [Put (CHR '','')] else [])
                                @ newline_text w @ indent_text w (Suc (length rest)),
                      level_stack := level\<lparr>valueCount := valueCount level + 1\<rparr> # rest\<rparr>)
            else Inl AssertionFailed)
      else Inl OutOfBoundsRead)"
  by (simp add: PrettyPrefix_def WriteIndent_eq newline_if_indenting_eq os_Put_def
        RAPIDJSON_ASSERT_def)

lemma PrettyPrefix_value:
  "level_stack w = level # rest \<Longrightarrow> \<not> inArray level \<Longrightarrow> valueCount level mod 2 \<noteq> 0 \<Longrightarrow>
   PrettyPrefix t w =
     Inr (w\<lparr>os := os w @ Put (CHR '':'') # (if indentCharCount w > 0 then [Put (CHR '' '')] else []),
           level_stack := level\<lparr>valueCount := valueCount level + 1\<rparr> # rest\<rparr>)"
proof -
  assume a: "level_stack w = level # rest" "\<not> inArray level" "valueCount level mod 2 \<noteq> 0"
  from a(3) have "valueCount level \<noteq> 0" by auto
  then have "valueCount level > 0" by (simp add: word_greater_zero_iff)
  with a show ?thesis
    by (simp add: PrettyPrefix_def os_Put_def Let_def)
qed

text \<open>The emission calls, by the situation of the top frame.\<close>

lemma indent_in_range_precision [simp]:
  "indent_in_range (w\<lparr>doublePrecision := p\<rparr>) = indent_in_range w"
  by (simp add: indent_in_range_def)

lemma indent_text_precision [simp]: "indent_text (w\<lparr>doublePrecision := p\<rparr>) = indent_text w"
  by (simp add: indent_text_def level_indent_def fun_eq_iff)

lemma newline_text_precision [simp]: "newline_text (w\<lparr>doublePrecision := p\<rparr>) = newline_text w"
  by (simp add: newline_text_def)

lemma Double_nonfinite:
  "nonfinite d \<Longrightarrow> Double d w = Inr (w\<lparr>os := os w @ map Put (nonfinite_token d)\<rparr>)"
  by (cases d) (simp_all add: Double_def os_Put_def)

lemma Double_finite:
  "Double (DFinite r) w =
     bind (PrettyPrefix kNumberType w)
       (\<lambda>w'. Inr (Base_Write (WriteDouble (DFinite r) (doublePrecision w')) w'))"
  by (simp add: Double_def)

lemmas call_defs = Null_def Bool_def Int32_def Uint_def Int64_def Uint64_def Double_finite
  String_def StartObject_def StartArray_def Double_precision_def GetDoublePrecision_def
  SetDoublePrecision_def Base_Write_def

lemma call_in_array:
  assumes "level_stack w = level # rest" "inArray level" "prefixed_call e"
  shows "do_call e w =
     (if indent_in_range w
      then Inr (w\<lparr>os := os w @ (if valueCount level > 0 then [Put (CHR '','')] else [])
                          @ newline_text w @ indent_text w (Suc (length rest))
                          @ [Write (call_token e w)],
                level_stack := call_pushes e @ level\<lparr>valueCount := valueCount level + 1\<rparr> # rest\<rparr>)
      else Inl OutOfBoundsRead)"
proof (cases e)
  case (DoubleCall d)
  with assms(3) obtain r where "d = DFinite r" by (cases d) auto
  with DoubleCall assms(1,2) show ?thesis by (simp add: call_defs PrettyPrefix_array)
next
  case (DoublePrecisionCall d p)
  with assms(3) obtain r where "d = DFinite r" by (cases d) auto
  with DoublePrecisionCall assms(1,2) show ?thesis by (simp add: call_defs PrettyPrefix_array)
qed (use assms in \<open>simp_all add: call_defs PrettyPrefix_array\<close>)

lemma call_at_key:
  assumes "level_stack w = level # rest" "\<not> inArray level" "valueCount level mod 2 = 0"
    "prefixed_call e"
  shows "do_call e w =
     (if indent_in_range w
      then (if call_type e = kStringType
            then Inr (w\<lparr>os := os w @ (if valueCount level > 0 then [Put (CHR '','')] else [])
                          @ newline_text w @ indent_text w (Suc (length rest))
                          @ [Write (call_token e w)],
                level_stack := call_pushes e @ level\<lparr>valueCount := valueCount level + 1\<rparr> # rest\<rparr>)
            else Inl AssertionFailed)
      else Inl OutOfBoundsRead)"
proof (cases e)
  case (DoubleCall d)
  with assms(4) obtain r where "d = DFinite r" by (cases d) auto
  with DoubleCall assms(1,2,3) show ?thesis by (simp add: call_defs PrettyPrefix_key)
next
  case (DoublePrecisionCall d p)
  with assms(4) obtain r where "d = DFinite r" by (cases d) auto
  with DoublePrecisionCall assms(1,2,3) show ?thesis by (simp add: call_defs PrettyPrefix_key)
qed (use assms in \<open>simp_all add: call_defs PrettyPrefix_key\<close>)

lemma call_at_value:
  assumes "level_stack w = level # rest" "\<not> inArray level" "valueCount level mod 2 \<noteq> 0"
    "prefixed_call e"
  shows "do_call e w =
     Inr (w\<lparr>os := os w @ Put (CHR '':'') # (if indentCharCount w > 0 then [Put (CHR '' '')] else [])
                    @ [Write (call_token e w)],
           level_stack := call_pushes e @ level\<lparr>valueCount := valueCount level + 1\<rparr> # rest\<rparr>)"
proof (cases e)
  case (DoubleCall d)
  with assms(4) obtain r where "d = DFinite r" by (cases d) auto
  with DoubleCall assms(1,2,3) show ?thesis by (simp add: call_defs PrettyPrefix_value)
next
  case (DoublePrecisionCall d p)
  with assms(4) obtain r where "d = DFinite r" by (cases d) auto
  with DoublePrecisionCall assms(1,2,3) show ?thesis by (simp add: call_defs PrettyPrefix_value)
qed (use assms in \<open>simp_all add: call_defs PrettyPrefix_value\<close>)

lemma call_at_root:
  assumes "level_stack w = []" "prefixed_call e"
  shows "do_call e w =
     Inr (w\<lparr>os := os w @ [Write (call_token e w)], level_stack := call_pushes e\<rparr>)"
proof (cases e)
  case (DoubleCall d)
  with assms(2) obtain r where "d = DFinite r" by (cases d) auto
  with DoubleCall assms(1) show ?thesis by (simp add: call_defs PrettyPrefix_root)
next
  case (DoublePrecisionCall d p)
  with assms(2) obtain r where "d = DFinite r" by (cases d) auto
  with DoublePrecisionCall assms(1) show ?thesis by (simp add: call_defs PrettyPrefix_root)
qed (use assms in \<open>simp_all add: call_defs PrettyPrefix_root\<close>)

text \<open>The container ends, and the precision across \<^verbatim>\<open>PrettyPrefix\<close>.\<close>

lemma indent_text_stack [simp]: "indent_text (w\<lparr>level_stack := x\<rparr>) = indent_text w"
  by (simp add: indent_text_def level_indent_def fun_eq_iff)

lemma newline_text_stack [simp]: "newline_text (w\<lparr>level_stack := x\<rparr>) = newline_text w"
  by (simp add: newline_text_def)

lemma indent_in_range_stack [simp]: "indent_in_range (w\<lparr>level_stack := x\<rparr>) = indent_in_range w"
  by (simp add: indent_in_range_def)

lemma indent_text_0 [simp]: "indent_text w 0 = []"
  by (simp add: indent_text_def)

lemma EndObject_eq:
  assumes "level_stack w = level # rest" "\<not> inArray level"
  shows "EndObject w =
     (if valueCount level = 0 \<or> rest = [] \<or> indent_in_range w
      then Inr (w\<lparr>level_stack := rest,
                  os := os w @ (if valueCount level = 0 then []
                                else newline_text w @ indent_text w (length rest))
                        @ [Write WriteEndObject] @ (if rest = [] then [Flush] else [])\<rparr>)
      else Inl OutOfBoundsRead)"
  using assms
  by (simp add: EndObject_def RAPIDJSON_ASSERT_def WriteIndent_eq newline_if_indenting_eq
        Base_Write_def os_Flush_def Let_def)

lemma EndArray_eq:
  assumes "level_stack w = level # rest" "inArray level"
  shows "EndArray w =
     (if valueCount level = 0 \<or> rest = [] \<or> indent_in_range w
      then Inr (w\<lparr>level_stack := rest,
                  os := os w @ (if valueCount level = 0 then []
                                else newline_text w @ indent_text w (length rest))
                        @ [Write WriteEndArray] @ (if rest = [] then [Flush] else [])\<rparr>)
      else Inl OutOfBoundsRead)"
  using assms
  by (simp add: EndArray_def RAPIDJSON_ASSERT_def WriteIndent_eq newline_if_indenting_eq
        Base_Write_def os_Flush_def Let_def)

lemma End_asserts:
  "level_stack w = [] \<Longrightarrow> EndObject w = Inl AssertionFailed"
  "level_stack w = [] \<Longrightarrow> EndArray w = Inl AssertionFailed"
  "level_stack w = level # rest \<Longrightarrow> inArray level \<Longrightarrow> EndObject w = Inl AssertionFailed"
  "level_stack w = level # rest \<Longrightarrow> \<not> inArray level \<Longrightarrow> EndArray w = Inl AssertionFailed"
  by (simp_all add: EndObject_def EndArray_def RAPIDJSON_ASSERT_def)

lemma PrettyPrefix_precision:
  "PrettyPrefix t (w\<lparr>doublePrecision := p\<rparr>) =
     bind (PrettyPrefix t w) (\<lambda>w'. Inr (w'\<lparr>doublePrecision := p\<rparr>))"
proof (cases "level_stack w")
  case Nil
  then show ?thesis by (simp add: PrettyPrefix_root)
next
  case (Cons level rest)
  show ?thesis
  proof (cases "inArray level")
    case True
    with Cons show ?thesis by (simp add: PrettyPrefix_array)
  next
    case False
    with Cons show ?thesis
      by (cases "valueCount level mod 2 = 0") (simp_all add: PrettyPrefix_key PrettyPrefix_value)
  qed
qed

lemma PrettyPrefix_keeps_precision:
  "PrettyPrefix t w = Inr w' \<Longrightarrow> doublePrecision w' = doublePrecision w"
proof (cases "level_stack w")
  case Nil
  assume "PrettyPrefix t w = Inr w'"
  with Nil show ?thesis by (simp add: PrettyPrefix_root)
next
  case (Cons level rest)
  assume a: "PrettyPrefix t w = Inr w'"
  show ?thesis
  proof (cases "inArray level")
    case True
    with Cons a show ?thesis by (auto simp: PrettyPrefix_array split: if_splits)
  next
    case False
    with Cons a show ?thesis
      by (cases "valueCount level mod 2 = 0")
         (auto simp: PrettyPrefix_key PrettyPrefix_value split: if_splits)
  qed
qed

text \<open>A container start followed at once by its end.\<close>

lemma PrettyPrefix_stack_empty:
  "PrettyPrefix t w = Inr w' \<Longrightarrow> (level_stack w' = []) = (level_stack w = [])"
proof (cases "level_stack w")
  case Nil
  assume "PrettyPrefix t w = Inr w'"
  with Nil show ?thesis by (simp add: PrettyPrefix_root)
next
  case (Cons level rest)
  assume a: "PrettyPrefix t w = Inr w'"
  show ?thesis
  proof (cases "inArray level")
    case True
    with Cons a show ?thesis by (auto simp: PrettyPrefix_array split: if_splits)
  next
    case False
    with Cons a show ?thesis
      by (cases "valueCount level mod 2 = 0")
         (auto simp: PrettyPrefix_key PrettyPrefix_value split: if_splits)
  qed
qed

lemma stack_update_id: "level_stack w = s \<Longrightarrow> w\<lparr>level_stack := s\<rparr> = w"
  by auto

lemma rendered_append [simp]: "rendered enc (xs @ ys) = rendered enc xs @ rendered enc ys"
  by (simp add: rendered_def)

lemma Start_then_End_object:
  assumes "StartObject w = Inr w1"
  shows "\<exists>pre. os w1 = pre @ [Write WriteStartObject] \<and>
           EndObject w1 = Inr (w1\<lparr>level_stack := tl (level_stack w1),
             os := pre @ [Write WriteStartObject, Write WriteEndObject]
                   @ (if level_stack w = [] then [Flush] else [])\<rparr>)"
proof -
  from assms obtain w' where p: "PrettyPrefix kObjectType w = Inr w'"
    and w1: "w1 = Base_Write WriteStartObject
                    (w'\<lparr>level_stack := \<lparr>inArray = False, valueCount = 0\<rparr> # level_stack w'\<rparr>)"
    by (cases "PrettyPrefix kObjectType w") (auto simp: StartObject_def)
  have st: "level_stack w1 = \<lparr>inArray = False, valueCount = 0\<rparr> # level_stack w'"
    by (simp add: w1 Base_Write_def)
  have e: "(level_stack w' = []) = (level_stack w = [])"
    by (rule PrettyPrefix_stack_empty [OF p])
  have "os w1 = os w' @ [Write WriteStartObject]"
    by (simp add: w1 Base_Write_def)
  moreover have "EndObject w1 = Inr (w1\<lparr>level_stack := tl (level_stack w1),
             os := os w' @ [Write WriteStartObject, Write WriteEndObject]
                   @ (if level_stack w = [] then [Flush] else [])\<rparr>)"
    using e by (simp add: EndObject_eq [OF st]) (simp add: st w1 Base_Write_def)
  ultimately show ?thesis by blast
qed

lemma Start_then_End_array:
  assumes "StartArray w = Inr w1"
  shows "\<exists>pre. os w1 = pre @ [Write WriteStartArray] \<and>
           EndArray w1 = Inr (w1\<lparr>level_stack := tl (level_stack w1),
             os := pre @ [Write WriteStartArray, Write WriteEndArray]
                   @ (if level_stack w = [] then [Flush] else [])\<rparr>)"
proof -
  from assms obtain w' where p: "PrettyPrefix kArrayType w = Inr w'"
    and w1: "w1 = Base_Write WriteStartArray
                    (w'\<lparr>level_stack := \<lparr>inArray = True, valueCount = 0\<rparr> # level_stack w'\<rparr>)"
    by (cases "PrettyPrefix kArrayType w") (auto simp: StartArray_def)
  have st: "level_stack w1 = \<lparr>inArray = True, valueCount = 0\<rparr> # level_stack w'"
    by (simp add: w1 Base_Write_def)
  have e: "(level_stack w' = []) = (level_stack w = [])"
    by (rule PrettyPrefix_stack_empty [OF p])
  have "os w1 = os w' @ [Write WriteStartArray]"
    by (simp add: w1 Base_Write_def)
  moreover have "EndArray w1 = Inr (w1\<lparr>level_stack := tl (level_stack w1),
             os := os w' @ [Write WriteStartArray, Write WriteEndArray]
                   @ (if level_stack w = [] then [Flush] else [])\<rparr>)"
    using e by (simp add: EndArray_eq [OF st]) (simp add: st w1 Base_Write_def)
  ultimately show ?thesis by blast
qed

text \<open>The precision overload.\<close>

lemma call_token_os [simp]: "call_token e (w\<lparr>os := x\<rparr>) = call_token e w"
  by (cases e) simp_all

lemma Double_precision_eq:
  "Double_precision d p w =
     bind (Double d (w\<lparr>doublePrecision := p\<rparr>))
       (\<lambda>w'. Inr (w'\<lparr>doublePrecision := doublePrecision w\<rparr>))"
  by (simp add: Double_precision_def GetDoublePrecision_def SetDoublePrecision_def)

lemma Double_precision_finite:
  "Double_precision (DFinite r) p w =
     bind (PrettyPrefix kNumberType w)
       (\<lambda>w'. Inr (w'\<lparr>os := os w' @ [Write (WriteDouble (DFinite r) p)]\<rparr>))"
proof (cases "PrettyPrefix kNumberType w")
  case (Inl e)
  then show ?thesis
    by (simp add: Double_precision_eq Double_finite PrettyPrefix_precision)
next
  case (Inr w')
  from PrettyPrefix_keeps_precision [OF this] Inr show ?thesis
    by (simp add: Double_precision_eq Double_finite PrettyPrefix_precision Base_Write_def)
qed

lemma Double_precision_nonfinite:
  "nonfinite d \<Longrightarrow> Double_precision d p w = Inr (w\<lparr>os := os w @ map Put (nonfinite_token d)\<rparr>)"
  by (simp add: Double_precision_eq Double_nonfinite)

text \<open>What a run puts when \<^verbatim>\<open>indentCharCount_\<close> is 0.\<close>

lemma compact_indent_text: "indentCharCount w = 0 \<Longrightarrow> indent_text w n = []"
  by (simp add: indent_text_def level_indent_def)

lemma compact_in_range: "indentCharCount w = 0 \<Longrightarrow> indent_in_range w"
  by (simp add: indent_in_range_def)

lemma compact_newline_text: "indentCharCount w = 0 \<Longrightarrow> newline_text w = []"
  by (simp add: newline_text_def)

lemma nonfinite_token_chars: "set (nonfinite_token d) \<subseteq> set '',:NaN-Infinity''"
  by (cases d) auto

lemma do_call_compact:
  assumes c: "indentCharCount w = 0" and r: "do_call e w = Inr w'"
  shows "indentCharCount w' = 0 \<and>
         (\<exists>new. os w' = os w @ new \<and> (\<forall>c. Put c \<in> set new \<longrightarrow> c \<in> set '',:NaN-Infinity''))"
proof (cases "prefixed_call e")
  case True
  show ?thesis
  proof (cases "level_stack w")
    case Nil
    from call_at_root [OF Nil True] r c show ?thesis by auto
  next
    case (Cons level rest)
    show ?thesis
    proof (cases "inArray level")
      case True
      from call_in_array [OF Cons True \<open>prefixed_call e\<close>] r c show ?thesis
        by (auto simp: compact_indent_text compact_in_range compact_newline_text)
    next
      case False
      show ?thesis
      proof (cases "valueCount level mod 2 = 0")
        case True
        from call_at_key [OF Cons False True \<open>prefixed_call e\<close>] r c show ?thesis
          by (auto simp: compact_indent_text compact_in_range compact_newline_text
                split: if_splits)
      next
        case odd: False
        from call_at_value [OF Cons False odd \<open>prefixed_call e\<close>] r c show ?thesis
          by auto
      qed
    qed
  qed
next
  case False
  then consider (dbl) d where "e = DoubleCall d" "nonfinite d"
    | (dblp) d p where "e = DoublePrecisionCall d p" "nonfinite d"
    | (endo) "e = EndObjectCall" | (enda) "e = EndArrayCall"
    by (cases e) auto
  then show ?thesis
  proof cases
    case dbl
    with r c nonfinite_token_chars [of d] show ?thesis
      by (auto simp: Double_nonfinite)
  next
    case dblp
    with r c nonfinite_token_chars [of d] show ?thesis
      by (auto simp: Double_precision_nonfinite)
  next
    case endo
    show ?thesis
    proof (cases "level_stack w")
      case Nil
      with endo r show ?thesis by (simp add: End_asserts)
    next
      case (Cons level rest)
      show ?thesis
      proof (cases "inArray level")
        case True
        with Cons endo r show ?thesis by (simp add: End_asserts)
      next
        case False
        from EndObject_eq [OF Cons False] endo r c show ?thesis
          by (auto simp: compact_indent_text compact_in_range compact_newline_text
                split: if_splits)
      qed
    qed
  next
    case enda
    show ?thesis
    proof (cases "level_stack w")
      case Nil
      with enda r show ?thesis by (simp add: End_asserts)
    next
      case (Cons level rest)
      show ?thesis
      proof (cases "inArray level")
        case False
        with Cons enda r show ?thesis by (simp add: End_asserts)
      next
        case True
        from EndArray_eq [OF Cons True] enda r c show ?thesis
          by (auto simp: compact_indent_text compact_in_range compact_newline_text
                split: if_splits)
      qed
    qed
  qed
qed

lemma do_calls_compact:
  "indentCharCount w = 0 \<Longrightarrow> do_calls cs w = Inr w' \<Longrightarrow>
   \<exists>new. os w' = os w @ new \<and> (\<forall>c. Put c \<in> set new \<longrightarrow> c \<in> set '',:NaN-Infinity'')"
proof (induction cs arbitrary: w)
  case Nil
  then show ?case by simp
next
  case (Cons e cs)
  from Cons.prems(2) obtain w1 where e: "do_call e w = Inr w1" and cs: "do_calls cs w1 = Inr w'"
    by (cases "do_call e w") auto
  from do_call_compact [OF Cons.prems(1) e] obtain new1 where
    c1: "indentCharCount w1 = 0" and n1: "os w1 = os w @ new1"
    and p1: "\<forall>c. Put c \<in> set new1 \<longrightarrow> c \<in> set '',:NaN-Infinity''"
    by blast
  from Cons.IH [OF c1 cs] obtain new2 where n2: "os w' = os w1 @ new2"
    and p2: "\<forall>c. Put c \<in> set new2 \<longrightarrow> c \<in> set '',:NaN-Infinity''"
    by blast
  have "os w' = os w @ (new1 @ new2)" by (simp add: n1 n2)
  moreover have "\<forall>c. Put c \<in> set (new1 @ new2) \<longrightarrow> c \<in> set '',:NaN-Infinity''"
    using p1 p2 by auto
  ultimately show ?case by blast
qed

text \<open>Arrays opened one inside the other.\<close>

lemma level_indent_in_string:
  "unat (indentCharCount w) \<le> length (indentation w) \<Longrightarrow>
   level_indent w = take (unat (indentCharCount w)) (indentation w)"
  by (simp add: level_indent_def)

lemma in_string_in_range:
  "unat (indentCharCount w) \<le> length (indentation w) \<Longrightarrow> indent_in_range w"
  by (simp add: indent_in_range_def)

lemma nested_arrays:
  assumes "indent_in_range w" and "level_stack w = [] \<or> inArray (hd (level_stack w))"
  shows "\<exists>w'. do_calls (replicate n StartArrayCall) w = Inr w' \<and>
           length (level_stack w') = length (level_stack w) + n \<and>
           indentation w' = indentation w \<and> indentCharCount w' = indentCharCount w \<and>
           (level_stack w' = [] \<or> inArray (hd (level_stack w'))) \<and>
           (n > 0 \<longrightarrow> valueCount (hd (level_stack w')) = 0)"
  using assms
proof (induction n arbitrary: w)
  case 0
  then show ?case by simp
next
  case (Suc n)
  have "\<exists>w1. do_call StartArrayCall w = Inr w1 \<and>
          level_stack w1 = \<lparr>inArray = True, valueCount = 0\<rparr> # tl (level_stack w1) \<and>
          length (level_stack w1) = Suc (length (level_stack w)) \<and>
          indentation w1 = indentation w \<and> indentCharCount w1 = indentCharCount w"
  proof (cases "level_stack w")
    case Nil
    from call_at_root [OF Nil, of StartArrayCall] Nil show ?thesis by simp
  next
    case (Cons level rest)
    with Suc.prems(2) have "inArray level" by simp
    from call_in_array [OF Cons this, of StartArrayCall] Suc.prems(1) Cons show ?thesis
      by simp
  qed
  then obtain w1 where s: "do_call StartArrayCall w = Inr w1"
    and t: "level_stack w1 = \<lparr>inArray = True, valueCount = 0\<rparr> # tl (level_stack w1)"
    and l: "length (level_stack w1) = Suc (length (level_stack w))"
    and i: "indentation w1 = indentation w" "indentCharCount w1 = indentCharCount w"
    by blast
  have top: "inArray (hd (level_stack w1))" "valueCount (hd (level_stack w1)) = 0"
    by (subst t, simp)+
  from Suc.prems(1) i have r1: "indent_in_range w1" by (simp add: indent_in_range_def)
  from top have a1: "level_stack w1 = [] \<or> inArray (hd (level_stack w1))" by simp
  from Suc.IH [OF r1 a1] obtain w' where
    d: "do_calls (replicate n StartArrayCall) w1 = Inr w'"
    and l': "length (level_stack w') = length (level_stack w1) + n"
    and i': "indentation w' = indentation w1" "indentCharCount w' = indentCharCount w1"
    and a': "level_stack w' = [] \<or> inArray (hd (level_stack w'))"
    and v': "n > 0 \<longrightarrow> valueCount (hd (level_stack w')) = 0"
    by blast
  have v: "valueCount (hd (level_stack w')) = 0"
  proof (cases n)
    case 0
    with d top show ?thesis by simp
  next
    case (Suc k)
    with v' show ?thesis by simp
  qed
  from s d have "do_calls (replicate (Suc n) StartArrayCall) w = Inr w'"
    by (simp del: do_call.simps)
  with l l' i i' a' v show ?case by simp
qed

section \<open>The claims\<close>

text \<open>
  C4. A double that is not-a-number, positive infinity or negative infinity is written
  as the literal \<^verbatim>\<open>NaN\<close>, \<^verbatim>\<open>Infinity\<close> or \<^verbatim>\<open>-Infinity\<close>, character by character, straight
  to the sink: nothing else is put (no comma, colon, newline or indentation) and nothing
  else of the writer changes, whatever the stack is, so also at the first position of an
  array. A finite double goes through \<^verbatim>\<open>PrettyPrefix\<close> and then the base class's
  \<^verbatim>\<open>WriteDouble\<close>.
\<close>

theorem Double_nonfinite_bypasses_prefix:
  "Double DNaN w = Inr (w\<lparr>os := os w @ map Put ''NaN''\<rparr>) \<and>
   Double DPosInf w = Inr (w\<lparr>os := os w @ map Put ''Infinity''\<rparr>) \<and>
   Double DNegInf w = Inr (w\<lparr>os := os w @ map Put ''-Infinity''\<rparr>) \<and>
   Double (DFinite r) w =
     bind (PrettyPrefix kNumberType w)
       (\<lambda>w'. Inr (w'\<lparr>os := os w' @ [Write (WriteDouble (DFinite r) (doublePrecision w'))]\<rparr>))"
  using Double_nonfinite [of DNaN w] Double_nonfinite [of DPosInf w]
    Double_nonfinite [of DNegInf w]
  by (simp add: Double_finite Base_Write_def)

text \<open>
  C6. Closing a container whose \<^verbatim>\<open>valueCount\<close> is 0 puts the closing token alone (then
  flushes when the stack has become empty), whatever the indentation settings are. A
  \<^verbatim>\<open>StartObject\<close> that returns, followed by \<^verbatim>\<open>EndObject\<close>, leaves the two tokens next to
  each other at the end of the sink, which reads \<^verbatim>\<open>{}\<close>; likewise \<^verbatim>\<open>[]\<close> for an array; at
  the root nothing else is written at all.
\<close>

theorem empty_container_closes_adjacent:
  "(level_stack w = level # rest \<and> \<not> inArray level \<and> valueCount level = 0 \<longrightarrow>
      EndObject w = Inr (w\<lparr>level_stack := rest,
                           os := os w @ [Write WriteEndObject]
                                 @ (if rest = [] then [Flush] else [])\<rparr>)) \<and>
   (level_stack w = level # rest \<and> inArray level \<and> valueCount level = 0 \<longrightarrow>
      EndArray w = Inr (w\<lparr>level_stack := rest,
                          os := os w @ [Write WriteEndArray]
                                @ (if rest = [] then [Flush] else [])\<rparr>)) \<and>
   (StartObject w = Inr w1 \<longrightarrow>
      (\<exists>pre w2. os w1 = pre @ [Write WriteStartObject] \<and> EndObject w1 = Inr w2 \<and>
         os w2 = pre @ [Write WriteStartObject, Write WriteEndObject]
                 @ (if level_stack w = [] then [Flush] else []) \<and>
         rendered enc (os w2) = rendered enc pre @ ''{}'')) \<and>
   (StartArray w = Inr w1 \<longrightarrow>
      (\<exists>pre w2. os w1 = pre @ [Write WriteStartArray] \<and> EndArray w1 = Inr w2 \<and>
         os w2 = pre @ [Write WriteStartArray, Write WriteEndArray]
                 @ (if level_stack w = [] then [Flush] else []) \<and>
         rendered enc (os w2) = rendered enc pre @ ''[]'')) \<and>
   (level_stack w = [] \<longrightarrow>
      do_calls [StartObjectCall, EndObjectCall] w =
        Inr (w\<lparr>os := os w @ [Write WriteStartObject, Write WriteEndObject, Flush]\<rparr>) \<and>
      do_calls [StartArrayCall, EndArrayCall] w =
        Inr (w\<lparr>os := os w @ [Write WriteStartArray, Write WriteEndArray, Flush]\<rparr>))"
proof (intro conjI impI)
  assume "level_stack w = level # rest \<and> \<not> inArray level \<and> valueCount level = 0"
  then show "EndObject w = Inr (w\<lparr>level_stack := rest,
      os := os w @ [Write WriteEndObject] @ (if rest = [] then [Flush] else [])\<rparr>)"
    by (simp add: EndObject_eq)
next
  assume "level_stack w = level # rest \<and> inArray level \<and> valueCount level = 0"
  then show "EndArray w = Inr (w\<lparr>level_stack := rest,
      os := os w @ [Write WriteEndArray] @ (if rest = [] then [Flush] else [])\<rparr>)"
    by (simp add: EndArray_eq)
next
  assume "StartObject w = Inr w1"
  from Start_then_End_object [OF this] obtain pre where
    "os w1 = pre @ [Write WriteStartObject]"
    "EndObject w1 = Inr (w1\<lparr>level_stack := tl (level_stack w1),
       os := pre @ [Write WriteStartObject, Write WriteEndObject]
             @ (if level_stack w = [] then [Flush] else [])\<rparr>)"
    by blast
  then show "\<exists>pre w2. os w1 = pre @ [Write WriteStartObject] \<and> EndObject w1 = Inr w2 \<and>
         os w2 = pre @ [Write WriteStartObject, Write WriteEndObject]
                 @ (if level_stack w = [] then [Flush] else []) \<and>
         rendered enc (os w2) = rendered enc pre @ ''{}''"
    by (intro exI [of _ pre] exI [of _ "w1\<lparr>level_stack := tl (level_stack w1),
       os := pre @ [Write WriteStartObject, Write WriteEndObject]
             @ (if level_stack w = [] then [Flush] else [])\<rparr>"]) (simp add: rendered_def)
next
  assume "StartArray w = Inr w1"
  from Start_then_End_array [OF this] obtain pre where
    "os w1 = pre @ [Write WriteStartArray]"
    "EndArray w1 = Inr (w1\<lparr>level_stack := tl (level_stack w1),
       os := pre @ [Write WriteStartArray, Write WriteEndArray]
             @ (if level_stack w = [] then [Flush] else [])\<rparr>)"
    by blast
  then show "\<exists>pre w2. os w1 = pre @ [Write WriteStartArray] \<and> EndArray w1 = Inr w2 \<and>
         os w2 = pre @ [Write WriteStartArray, Write WriteEndArray]
                 @ (if level_stack w = [] then [Flush] else []) \<and>
         rendered enc (os w2) = rendered enc pre @ ''[]''"
    by (intro exI [of _ pre] exI [of _ "w1\<lparr>level_stack := tl (level_stack w1),
       os := pre @ [Write WriteStartArray, Write WriteEndArray]
             @ (if level_stack w = [] then [Flush] else [])\<rparr>"]) (simp add: rendered_def)
next
  assume r: "level_stack w = []"
  show "do_calls [StartObjectCall, EndObjectCall] w =
        Inr (w\<lparr>os := os w @ [Write WriteStartObject, Write WriteEndObject, Flush]\<rparr>)"
    using call_at_root [OF r, of StartObjectCall] stack_update_id [OF r]
    by (simp add: EndObject_eq)
  show "do_calls [StartArrayCall, EndArrayCall] w =
        Inr (w\<lparr>os := os w @ [Write WriteStartArray, Write WriteEndArray, Flush]\<rparr>)"
    using call_at_root [OF r, of StartArrayCall] stack_update_id [OF r]
    by (simp add: EndArray_eq)
qed

theorem empty_container_closes_adjacent_witness:
  "EndObject \<lparr>os = [Write WriteStartArray, Put (CHR 0x0A), Put (CHR '' ''), Put (CHR '' ''),
                    Write WriteStartObject],
              level_stack = [\<lparr>inArray = False, valueCount = 0\<rparr>,
                             \<lparr>inArray = True, valueCount = 1\<rparr>],
              doublePrecision = 6, indentation = ''  '', indentCharCount = 2\<rparr>
   = Inr \<lparr>os = [Write WriteStartArray, Put (CHR 0x0A), Put (CHR '' ''), Put (CHR '' ''),
                 Write WriteStartObject, Write WriteEndObject],
           level_stack = [\<lparr>inArray = True, valueCount = 1\<rparr>],
           doublePrecision = 6, indentation = ''  '', indentCharCount = 2\<rparr> \<and>
   do_calls [StartArrayCall, EndArrayCall] (SetIndent ''  '' 2 (PrettyWriter_new 6))
   = Inr \<lparr>os = [Write WriteStartArray, Write WriteEndArray, Flush], level_stack = [],
           doublePrecision = 6, indentation = ''  '', indentCharCount = 2\<rparr>"
  using empty_container_closes_adjacent
    [of "\<lparr>os = [Write WriteStartArray, Put (CHR 0x0A), Put (CHR '' ''), Put (CHR '' ''),
                Write WriteStartObject],
          level_stack = [\<lparr>inArray = False, valueCount = 0\<rparr>,
                         \<lparr>inArray = True, valueCount = 1\<rparr>],
          doublePrecision = 6, indentation = ''  '', indentCharCount = 2\<rparr>"
        "\<lparr>inArray = False, valueCount = 0\<rparr>" "[\<lparr>inArray = True, valueCount = 1\<rparr>]"]
    empty_container_closes_adjacent [of "SetIndent ''  '' 2 (PrettyWriter_new 6)"]
  by (simp add: SetIndent_def PrettyWriter_new_def)

text \<open>
  C7. \<^verbatim>\<open>EndObject\<close> and \<^verbatim>\<open>EndArray\<close>, on a top frame of their kind and an indentation
  that is read in range: the frame is popped; when its \<^verbatim>\<open>valueCount\<close> was above 0, a
  newline is put exactly when \<^verbatim>\<open>indentCharCount_\<close> is above 0, then the indentation for
  the number of frames left after the pop; then the closing token; then the sink is
  flushed exactly when no frame is left.
\<close>

theorem container_end_pops_then_indents:
  assumes "level_stack w = level # rest" and "indent_in_range w"
  shows "(\<not> inArray level \<longrightarrow>
            EndObject w =
              Inr (w\<lparr>level_stack := rest,
                     os := os w
                       @ (if valueCount level > 0
                          then (if indentCharCount w > 0 then [Put (CHR 0x0A)] else [])
                               @ indent_text w (length rest)
                          else [])
                       @ [Write WriteEndObject]
                       @ (if rest = [] then [Flush] else [])\<rparr>)) \<and>
         (inArray level \<longrightarrow>
            EndArray w =
              Inr (w\<lparr>level_stack := rest,
                     os := os w
                       @ (if valueCount level > 0
                          then (if indentCharCount w > 0 then [Put (CHR 0x0A)] else [])
                               @ indent_text w (length rest)
                          else [])
                       @ [Write WriteEndArray]
                       @ (if rest = [] then [Flush] else [])\<rparr>))"
  using assms
  by (simp add: EndObject_eq EndArray_eq newline_text_def word_greater_zero_iff)

theorem container_end_pops_then_indents_witness:
  "EndArray \<lparr>os = [Write WriteStartArray, Put (CHR 0x0A), Put (CHR '' ''), Put (CHR '' ''),
                   Write WriteStartArray, Put (CHR 0x0A), Put (CHR '' ''), Put (CHR '' ''),
                   Put (CHR '' ''), Put (CHR '' ''), Write WriteNull],
             level_stack = [\<lparr>inArray = True, valueCount = 1\<rparr>,
                            \<lparr>inArray = True, valueCount = 1\<rparr>],
             doublePrecision = 6, indentation = ''  '', indentCharCount = 2\<rparr>
   = Inr \<lparr>os = [Write WriteStartArray, Put (CHR 0x0A), Put (CHR '' ''), Put (CHR '' ''),
                 Write WriteStartArray, Put (CHR 0x0A), Put (CHR '' ''), Put (CHR '' ''),
                 Put (CHR '' ''), Put (CHR '' ''), Write WriteNull,
                 Put (CHR 0x0A), Put (CHR '' ''), Put (CHR '' ''), Write WriteEndArray],
           level_stack = [\<lparr>inArray = True, valueCount = 1\<rparr>],
           doublePrecision = 6, indentation = ''  '', indentCharCount = 2\<rparr>"
  using container_end_pops_then_indents
    [of "\<lparr>os = [Write WriteStartArray, Put (CHR 0x0A), Put (CHR '' ''), Put (CHR '' ''),
                Write WriteStartArray, Put (CHR 0x0A), Put (CHR '' ''), Put (CHR '' ''),
                Put (CHR '' ''), Put (CHR '' ''), Write WriteNull],
          level_stack = [\<lparr>inArray = True, valueCount = 1\<rparr>,
                         \<lparr>inArray = True, valueCount = 1\<rparr>],
          doublePrecision = 6, indentation = ''  '', indentCharCount = 2\<rparr>"
        "\<lparr>inArray = True, valueCount = 1\<rparr>" "[\<lparr>inArray = True, valueCount = 1\<rparr>]"]
  by (simp add: indent_in_range_def indent_text_def level_indent_def)

text \<open>
  C9. \<^verbatim>\<open>Double(d, precision)\<close>: when the call returns, the configured precision is what
  it was before the call. The call returns exactly when \<^verbatim>\<open>Double(d)\<close> does, and a finite
  double is encoded with the one-shot precision.
\<close>

theorem Double_precision_restores:
  "(Double_precision d p w = Inr w' \<longrightarrow> GetDoublePrecision w' = GetDoublePrecision w) \<and>
   isl (Double_precision d p w) = isl (Double d w) \<and>
   Double_precision (DFinite r) p w =
     bind (PrettyPrefix kNumberType w)
       (\<lambda>w'. Inr (w'\<lparr>os := os w' @ [Write (WriteDouble (DFinite r) p)]\<rparr>))"
proof (intro conjI impI)
  assume "Double_precision d p w = Inr w'"
  then show "GetDoublePrecision w' = GetDoublePrecision w"
    by (cases "Double d (w\<lparr>doublePrecision := p\<rparr>)")
       (auto simp: Double_precision_eq GetDoublePrecision_def)
next
  show "isl (Double_precision d p w) = isl (Double d w)"
  proof (cases "nonfinite d")
    case True
    then show ?thesis by (simp add: Double_precision_nonfinite Double_nonfinite)
  next
    case False
    then obtain r' where "d = DFinite r'" by (cases d) auto
    then show ?thesis
      by (cases "PrettyPrefix kNumberType w") (simp_all add: Double_precision_finite Double_finite)
  qed
next
  show "Double_precision (DFinite r) p w =
     bind (PrettyPrefix kNumberType w)
       (\<lambda>w'. Inr (w'\<lparr>os := os w' @ [Write (WriteDouble (DFinite r) p)]\<rparr>))"
    by (rule Double_precision_finite)
qed

theorem Double_precision_restores_witness:
  "Double_precision (DFinite (1 / 2)) 3
     \<lparr>os = [Write WriteStartArray], level_stack = [\<lparr>inArray = True, valueCount = 0\<rparr>],
      doublePrecision = 6, indentation = [], indentCharCount = 0\<rparr>
   = Inr \<lparr>os = [Write WriteStartArray, Write (WriteDouble (DFinite (1 / 2)) 3)],
           level_stack = [\<lparr>inArray = True, valueCount = 1\<rparr>],
           doublePrecision = 6, indentation = [], indentCharCount = 0\<rparr> \<and>
   GetDoublePrecision
     \<lparr>os = [Write WriteStartArray, Write (WriteDouble (DFinite (1 / 2)) 3)],
      level_stack = [\<lparr>inArray = True, valueCount = 1\<rparr>],
      doublePrecision = 6, indentation = [], indentCharCount = 0\<rparr>
   = GetDoublePrecision
     \<lparr>os = [Write WriteStartArray], level_stack = [\<lparr>inArray = True, valueCount = 0\<rparr>],
      doublePrecision = 6, indentation = [], indentCharCount = 0\<rparr>"
proof -
  have h: "Double_precision (DFinite (1 / 2)) 3
     \<lparr>os = [Write WriteStartArray], level_stack = [\<lparr>inArray = True, valueCount = 0\<rparr>],
      doublePrecision = 6, indentation = [], indentCharCount = 0\<rparr>
   = Inr \<lparr>os = [Write WriteStartArray, Write (WriteDouble (DFinite (1 / 2)) 3)],
           level_stack = [\<lparr>inArray = True, valueCount = 1\<rparr>],
           doublePrecision = 6, indentation = [], indentCharCount = 0\<rparr>"
    by (simp add: Double_precision_finite PrettyPrefix_array indent_in_range_def
          newline_text_def indent_text_def level_indent_def)
  from Double_precision_restores [THEN conjunct1, THEN mp, OF h] h show ?thesis
    by simp
qed

text \<open>
  C10. \<^verbatim>\<open>Double\<close> on a double that is not finite changes the sink only: the stack, and so
  the \<^verbatim>\<open>valueCount\<close> of the top frame, stays as it is. So in an array whose
  \<^verbatim>\<open>valueCount\<close> is 0 the next emitted value is still prefixed as the first element,
  with no comma; in an object the position stays the same: at an even \<^verbatim>\<open>valueCount\<close> the
  next value must still be a string, at an odd one it still takes the colon.
\<close>

theorem nonfinite_double_keeps_stack:
  assumes "nonfinite d"
  shows "Double d w = Inr (w\<lparr>os := os w @ map Put (nonfinite_token d)\<rparr>) \<and>
         (level_stack w = level # rest \<and> inArray level \<and> valueCount level = 0 \<and>
          prefixed_call e \<and> indent_in_range w \<longrightarrow>
            do_calls [DoubleCall d, e] w =
              Inr (w\<lparr>os := os w @ map Put (nonfinite_token d)
                          @ (if indentCharCount w > 0 then [Put (CHR 0x0A)] else [])
                          @ indent_text w (Suc (length rest))
                          @ [Write (call_token e w)],
                     level_stack := call_pushes e @ level\<lparr>valueCount := 1\<rparr> # rest\<rparr>)) \<and>
         (level_stack w = level # rest \<and> \<not> inArray level \<and> valueCount level mod 2 = 0 \<and>
          prefixed_call e \<and> indent_in_range w \<and> call_type e \<noteq> kStringType \<longrightarrow>
            do_calls [DoubleCall d, e] w = Inl AssertionFailed) \<and>
         (level_stack w = level # rest \<and> \<not> inArray level \<and> valueCount level mod 2 \<noteq> 0 \<and>
          prefixed_call e \<longrightarrow>
            do_calls [DoubleCall d, e] w =
              Inr (w\<lparr>os := os w @ map Put (nonfinite_token d)
                          @ Put (CHR '':'')
                            # (if indentCharCount w > 0 then [Put (CHR '' '')] else [])
                          @ [Write (call_token e w)],
                     level_stack :=
                       call_pushes e @ level\<lparr>valueCount := valueCount level + 1\<rparr> # rest\<rparr>))"
proof (intro conjI impI)
  let ?w1 = "w\<lparr>os := os w @ map Put (nonfinite_token d)\<rparr>"
  show d: "Double d w = Inr ?w1" using assms by (rule Double_nonfinite)
  {
    assume a: "level_stack w = level # rest \<and> inArray level \<and> valueCount level = 0 \<and>
              prefixed_call e \<and> indent_in_range w"
    then have "level_stack ?w1 = level # rest" by simp
    from call_in_array [OF this, of e] a
    show "do_calls [DoubleCall d, e] w =
              Inr (w\<lparr>os := os w @ map Put (nonfinite_token d)
                          @ (if indentCharCount w > 0 then [Put (CHR 0x0A)] else [])
                          @ indent_text w (Suc (length rest))
                          @ [Write (call_token e w)],
                     level_stack := call_pushes e @ level\<lparr>valueCount := 1\<rparr> # rest\<rparr>)"
      by (simp add: d newline_text_def)
  }
  {
    assume a: "level_stack w = level # rest \<and> \<not> inArray level \<and>
              valueCount level mod 2 = 0 \<and> prefixed_call e \<and> indent_in_range w \<and>
              call_type e \<noteq> kStringType"
    then have "level_stack ?w1 = level # rest" by simp
    from call_at_key [OF this, of e] a
    show "do_calls [DoubleCall d, e] w = Inl AssertionFailed" by (simp add: d)
  }
  {
    assume a: "level_stack w = level # rest \<and> \<not> inArray level \<and>
              valueCount level mod 2 \<noteq> 0 \<and> prefixed_call e"
    then have "level_stack ?w1 = level # rest" by simp
    from call_at_value [OF this, of e] a
    show "do_calls [DoubleCall d, e] w =
              Inr (w\<lparr>os := os w @ map Put (nonfinite_token d)
                          @ Put (CHR '':'')
                            # (if indentCharCount w > 0 then [Put (CHR '' '')] else [])
                          @ [Write (call_token e w)],
                     level_stack :=
                       call_pushes e @ level\<lparr>valueCount := valueCount level + 1\<rparr> # rest\<rparr>)"
      by (simp add: d)
  }
qed

theorem nonfinite_double_keeps_stack_witness:
  "do_calls [DoubleCall DNaN, IntCall 7]
     \<lparr>os = [Write WriteStartArray], level_stack = [\<lparr>inArray = True, valueCount = 0\<rparr>],
      doublePrecision = 6, indentation = ''  '', indentCharCount = 2\<rparr>
   = Inr \<lparr>os = [Write WriteStartArray, Put (CHR ''N''), Put (CHR ''a''), Put (CHR ''N''),
                 Put (CHR 0x0A), Put (CHR '' ''), Put (CHR '' ''), Write (WriteInt 7)],
           level_stack = [\<lparr>inArray = True, valueCount = 1\<rparr>],
           doublePrecision = 6, indentation = ''  '', indentCharCount = 2\<rparr>"
proof -
  have n: "nonfinite DNaN" by simp
  have p: "level_stack \<lparr>os = [Write WriteStartArray],
               level_stack = [\<lparr>inArray = True, valueCount = 0\<rparr>],
               doublePrecision = 6, indentation = ''  '', indentCharCount = 2\<rparr>
             = \<lparr>inArray = True, valueCount = 0\<rparr> # [] \<and>
           inArray \<lparr>inArray = True, valueCount = 0\<rparr> \<and>
           valueCount \<lparr>inArray = True, valueCount = 0\<rparr> = 0 \<and>
           prefixed_call (IntCall 7) \<and>
           indent_in_range \<lparr>os = [Write WriteStartArray],
               level_stack = [\<lparr>inArray = True, valueCount = 0\<rparr>],
               doublePrecision = 6, indentation = ''  '', indentCharCount = 2\<rparr>"
    by (simp add: indent_in_range_def)
  from nonfinite_double_keeps_stack [OF n, THEN conjunct2, THEN conjunct1, THEN mp, OF p]
  show ?thesis
    by (simp add: indent_text_def level_indent_def del: do_calls.simps)
qed

text \<open>
  C1, as stated, fails for a double that is not finite: in an array whose \<^verbatim>\<open>valueCount\<close>
  is 1, \<^verbatim>\<open>Double(NaN)\<close> puts no comma and leaves \<^verbatim>\<open>valueCount\<close> at 1.
\<close>

theorem array_emission_counterexample:
  "do_calls [StartArrayCall, IntCall 1] (PrettyWriter_new 6)
   = Inr \<lparr>os = [Write WriteStartArray, Write (WriteInt 1)],
           level_stack = [\<lparr>inArray = True, valueCount = 1\<rparr>],
           doublePrecision = 6, indentation = [], indentCharCount = 0\<rparr> \<and>
   do_call (DoubleCall DNaN)
     \<lparr>os = [Write WriteStartArray, Write (WriteInt 1)],
      level_stack = [\<lparr>inArray = True, valueCount = 1\<rparr>],
      doublePrecision = 6, indentation = [], indentCharCount = 0\<rparr>
   = Inr \<lparr>os = [Write WriteStartArray, Write (WriteInt 1),
                 Put (CHR ''N''), Put (CHR ''a''), Put (CHR ''N'')],
           level_stack = [\<lparr>inArray = True, valueCount = 1\<rparr>],
           doublePrecision = 6, indentation = [], indentCharCount = 0\<rparr>"
  by code_simp

text \<open>
  C1, amended. Every value emission other than a double that is not finite (each
  primitive, each container start), while the top frame is an array and the indentation
  is read in range: a comma is put exactly when the frame's \<^verbatim>\<open>valueCount\<close> is above 0;
  then a newline exactly when \<^verbatim>\<open>indentCharCount_\<close> is above 0; then the indentation for
  the current stack size; then the value. The frame's \<^verbatim>\<open>valueCount\<close> goes up by one (in
  \<^verbatim>\<open>size_t\<close> arithmetic), and a container start pushes its frame above it.
\<close>

theorem array_emission_through_prefix:
  assumes "level_stack w = level # rest" and "inArray level"
    and "prefixed_call e" and "indent_in_range w"
  shows "do_call e w =
     Inr (w\<lparr>os := os w
                 @ (if valueCount level > 0 then [Put (CHR '','')] else [])
                 @ (if indentCharCount w > 0 then [Put (CHR 0x0A)] else [])
                 @ indent_text w (length (level_stack w))
                 @ [Write (call_token e w)],
            level_stack :=
              call_pushes e @ level\<lparr>valueCount := valueCount level + 1\<rparr> # rest\<rparr>)"
  using assms by (simp add: call_in_array newline_text_def del: do_call.simps)

theorem array_emission_through_prefix_witness:
  "do_call StartArrayCall
     \<lparr>os = [Write WriteStartArray, Put (CHR 0x0A), Put (CHR '' ''), Put (CHR '' ''),
             Write (WriteInt 1)],
      level_stack = [\<lparr>inArray = True, valueCount = 1\<rparr>],
      doublePrecision = 6, indentation = ''  '', indentCharCount = 2\<rparr>
   = Inr \<lparr>os = [Write WriteStartArray, Put (CHR 0x0A), Put (CHR '' ''), Put (CHR '' ''),
                 Write (WriteInt 1), Put (CHR '',''), Put (CHR 0x0A), Put (CHR '' ''),
                 Put (CHR '' ''), Write WriteStartArray],
           level_stack = [\<lparr>inArray = True, valueCount = 0\<rparr>,
                          \<lparr>inArray = True, valueCount = 2\<rparr>],
           doublePrecision = 6, indentation = ''  '', indentCharCount = 2\<rparr>"
  using array_emission_through_prefix
    [of "\<lparr>os = [Write WriteStartArray, Put (CHR 0x0A), Put (CHR '' ''), Put (CHR '' ''),
                Write (WriteInt 1)],
          level_stack = [\<lparr>inArray = True, valueCount = 1\<rparr>],
          doublePrecision = 6, indentation = ''  '', indentCharCount = 2\<rparr>"
        "\<lparr>inArray = True, valueCount = 1\<rparr>" "[]" StartArrayCall]
  by (simp add: indent_in_range_def indent_text_def level_indent_def del: do_call.simps)

text \<open>
  C5, as stated, fails for a double that is not finite: in an object whose
  \<^verbatim>\<open>valueCount\<close> is 0, the position of a key, \<^verbatim>\<open>Double(NaN)\<close> returns normally.
\<close>

theorem nonfinite_key_counterexample:
  "do_calls [StartObjectCall] (PrettyWriter_new 6)
   = Inr \<lparr>os = [Write WriteStartObject],
           level_stack = [\<lparr>inArray = False, valueCount = 0\<rparr>],
           doublePrecision = 6, indentation = [], indentCharCount = 0\<rparr> \<and>
   do_call (DoubleCall DNaN)
     \<lparr>os = [Write WriteStartObject],
      level_stack = [\<lparr>inArray = False, valueCount = 0\<rparr>],
      doublePrecision = 6, indentation = [], indentCharCount = 0\<rparr>
   = Inr \<lparr>os = [Write WriteStartObject, Put (CHR ''N''), Put (CHR ''a''), Put (CHR ''N'')],
           level_stack = [\<lparr>inArray = False, valueCount = 0\<rparr>],
           doublePrecision = 6, indentation = [], indentCharCount = 0\<rparr>"
  by code_simp

text \<open>
  C5, amended. \<^verbatim>\<open>EndObject\<close> fails its assertion on an empty stack and on a top frame
  that is an array; \<^verbatim>\<open>EndArray\<close> fails its assertion on an empty stack and on a top
  frame that is an object; every value emission that goes through \<^verbatim>\<open>PrettyPrefix\<close> with
  a type other than \<^verbatim>\<open>kStringType\<close> fails the assertion when the top frame is an
  object with an even \<^verbatim>\<open>valueCount\<close> (the indentation being read in range). A double
  that is not finite is not checked: in that position it is written and the call
  returns.
\<close>

theorem protocol_violations_assert:
  "(level_stack w = [] \<longrightarrow>
      EndObject w = Inl AssertionFailed \<and> EndArray w = Inl AssertionFailed) \<and>
   (level_stack w = level # rest \<and> inArray level \<longrightarrow> EndObject w = Inl AssertionFailed) \<and>
   (level_stack w = level # rest \<and> \<not> inArray level \<longrightarrow> EndArray w = Inl AssertionFailed) \<and>
   (level_stack w = level # rest \<and> \<not> inArray level \<and> valueCount level mod 2 = 0 \<and>
    prefixed_call e \<and> call_type e \<noteq> kStringType \<and> indent_in_range w \<longrightarrow>
      do_call e w = Inl AssertionFailed) \<and>
   (level_stack w = level # rest \<and> \<not> inArray level \<and> valueCount level mod 2 = 0 \<and>
    nonfinite d \<longrightarrow>
      do_call (DoubleCall d) w = Inr (w\<lparr>os := os w @ map Put (nonfinite_token d)\<rparr>))"
  by (simp add: End_asserts call_at_key Double_nonfinite del: do_call.simps)
     (simp add: Double_nonfinite)

theorem protocol_violations_assert_witness:
  "EndObject (PrettyWriter_new 6) = Inl AssertionFailed \<and>
   EndArray (PrettyWriter_new 6) = Inl AssertionFailed \<and>
   EndObject \<lparr>os = [Write WriteStartArray],
               level_stack = [\<lparr>inArray = True, valueCount = 0\<rparr>],
               doublePrecision = 6, indentation = ''  '', indentCharCount = 2\<rparr>
     = Inl AssertionFailed \<and>
   EndArray \<lparr>os = [Write WriteStartObject],
              level_stack = [\<lparr>inArray = False, valueCount = 0\<rparr>],
              doublePrecision = 6, indentation = ''  '', indentCharCount = 2\<rparr>
     = Inl AssertionFailed \<and>
   do_call (IntCall 1)
     \<lparr>os = [Write WriteStartObject],
      level_stack = [\<lparr>inArray = False, valueCount = 0\<rparr>],
      doublePrecision = 6, indentation = ''  '', indentCharCount = 2\<rparr>
     = Inl AssertionFailed"
  using protocol_violations_assert [of "PrettyWriter_new 6"]
    protocol_violations_assert
      [of "\<lparr>os = [Write WriteStartArray],
            level_stack = [\<lparr>inArray = True, valueCount = 0\<rparr>],
            doublePrecision = 6, indentation = ''  '', indentCharCount = 2\<rparr>"
          "\<lparr>inArray = True, valueCount = 0\<rparr>" "[]"]
    protocol_violations_assert
      [of "\<lparr>os = [Write WriteStartObject],
            level_stack = [\<lparr>inArray = False, valueCount = 0\<rparr>],
            doublePrecision = 6, indentation = ''  '', indentCharCount = 2\<rparr>"
          "\<lparr>inArray = False, valueCount = 0\<rparr>" "[]" "IntCall 1"]
  by (simp add: PrettyWriter_new_def indent_in_range_def del: do_call.simps)

text \<open>
  C3. The constructor sets \<^verbatim>\<open>indentation_\<close> to the empty string and \<^verbatim>\<open>indentCharCount_\<close> to
  0, although the documentation of \<^verbatim>\<open>SetIndent\<close> notes that the default indentation is 4
  spaces: a writer that was never configured writes \<^verbatim>\<open>[1]\<close> with no newline and no
  indentation, and not what it writes after \<^verbatim>\<open>SetIndent("    ", 4)\<close>.
\<close>

theorem default_indentation_is_none:
  "indentation (PrettyWriter_new p) = [] \<and> indentCharCount (PrettyWriter_new p) = 0 \<and>
   do_calls [StartArrayCall, IntCall 1, EndArrayCall] (PrettyWriter_new 6)
   = Inr \<lparr>os = [Write WriteStartArray, Write (WriteInt 1), Write WriteEndArray, Flush],
           level_stack = [], doublePrecision = 6, indentation = [], indentCharCount = 0\<rparr> \<and>
   do_calls [StartArrayCall, IntCall 1, EndArrayCall] (SetIndent ''    '' 4 (PrettyWriter_new 6))
   = Inr \<lparr>os = [Write WriteStartArray, Put (CHR 0x0A), Put (CHR '' ''), Put (CHR '' ''),
                 Put (CHR '' ''), Put (CHR '' ''), Write (WriteInt 1), Put (CHR 0x0A),
                 Write WriteEndArray, Flush],
           level_stack = [], doublePrecision = 6, indentation = ''    '',
           indentCharCount = 4\<rparr>"
proof (intro conjI)
  show "indentation (PrettyWriter_new p) = []" by (simp add: PrettyWriter_new_def)
  show "indentCharCount (PrettyWriter_new p) = 0" by (simp add: PrettyWriter_new_def)
  show "do_calls [StartArrayCall, IntCall 1, EndArrayCall] (PrettyWriter_new 6)
   = Inr \<lparr>os = [Write WriteStartArray, Write (WriteInt 1), Write WriteEndArray, Flush],
           level_stack = [], doublePrecision = 6, indentation = [], indentCharCount = 0\<rparr>"
    by code_simp
  show "do_calls [StartArrayCall, IntCall 1, EndArrayCall] (SetIndent ''    '' 4 (PrettyWriter_new 6))
   = Inr \<lparr>os = [Write WriteStartArray, Put (CHR 0x0A), Put (CHR '' ''), Put (CHR '' ''),
                 Put (CHR '' ''), Put (CHR '' ''), Write (WriteInt 1), Put (CHR 0x0A),
                 Write WriteEndArray, Flush],
           level_stack = [], doublePrecision = 6, indentation = ''    '',
           indentCharCount = 4\<rparr>"
    by code_simp
qed

text \<open>
  C2, as stated, fails: with \<^verbatim>\<open>indentCharCount_\<close> at 0, the value of an object member is
  preceded by the colon alone; no space follows the colon.
\<close>

theorem compact_colon_counterexample:
  "do_calls [StartObjectCall, StringCall ''a''] (PrettyWriter_new 6)
   = Inr \<lparr>os = [Write WriteStartObject, Write (WriteString ''a'')],
           level_stack = [\<lparr>inArray = False, valueCount = 1\<rparr>],
           doublePrecision = 6, indentation = [], indentCharCount = 0\<rparr> \<and>
   do_call (IntCall 1)
     \<lparr>os = [Write WriteStartObject, Write (WriteString ''a'')],
      level_stack = [\<lparr>inArray = False, valueCount = 1\<rparr>],
      doublePrecision = 6, indentation = [], indentCharCount = 0\<rparr>
   = Inr \<lparr>os = [Write WriteStartObject, Write (WriteString ''a''), Put (CHR '':''),
                 Write (WriteInt 1)],
           level_stack = [\<lparr>inArray = False, valueCount = 2\<rparr>],
           doublePrecision = 6, indentation = [], indentCharCount = 0\<rparr>"
  by code_simp

text \<open>
  C2, amended. Every emission through \<^verbatim>\<open>PrettyPrefix\<close> of an object member's value (the
  top frame is an object and its \<^verbatim>\<open>valueCount\<close> is odd) puts a colon before the value;
  the colon is followed by a single space exactly when \<^verbatim>\<open>indentCharCount_\<close> is above 0, so
  with \<^verbatim>\<open>indentCharCount_\<close> at 0 the colon stands alone. With \<^verbatim>\<open>indentCharCount_\<close> at 0,
  \<^verbatim>\<open>WriteIndent\<close> puts nothing, and in any run of calls that returns, the characters that
  the writer puts are commas, colons and the letters of \<^verbatim>\<open>NaN\<close>, \<^verbatim>\<open>Infinity\<close> and
  \<^verbatim>\<open>-Infinity\<close>: no newline, no space.
\<close>

theorem compact_mode_separators:
  "(level_stack w = level # rest \<and> \<not> inArray level \<and> valueCount level mod 2 \<noteq> 0 \<and>
    prefixed_call e \<and> indentCharCount w = 0 \<longrightarrow>
      do_call e w =
        Inr (w\<lparr>os := os w @ [Put (CHR '':''), Write (call_token e w)],
               level_stack :=
                 call_pushes e @ level\<lparr>valueCount := valueCount level + 1\<rparr> # rest\<rparr>)) \<and>
   (level_stack w = level # rest \<and> \<not> inArray level \<and> valueCount level mod 2 \<noteq> 0 \<and>
    prefixed_call e \<and> indentCharCount w > 0 \<longrightarrow>
      do_call e w =
        Inr (w\<lparr>os := os w @ [Put (CHR '':''), Put (CHR '' ''), Write (call_token e w)],
               level_stack :=
                 call_pushes e @ level\<lparr>valueCount := valueCount level + 1\<rparr> # rest\<rparr>)) \<and>
   (indentCharCount w = 0 \<longrightarrow> WriteIndent w = Inr w) \<and>
   (indentCharCount w = 0 \<and> do_calls cs w = Inr w' \<longrightarrow>
      (\<exists>new. os w' = os w @ new \<and>
         Put (CHR 0x0A) \<notin> set new \<and> Put (CHR '' '') \<notin> set new \<and>
         (\<forall>c. Put c \<in> set new \<longrightarrow> c \<in> set '',:NaN-Infinity'')))"
proof (intro conjI impI)
  assume a: "level_stack w = level # rest \<and> \<not> inArray level \<and> valueCount level mod 2 \<noteq> 0 \<and>
    prefixed_call e \<and> indentCharCount w = 0"
  then have "level_stack w = level # rest" "\<not> inArray level" "valueCount level mod 2 \<noteq> 0"
    "prefixed_call e" by simp_all
  from call_at_value [OF this] a
  show "do_call e w =
        Inr (w\<lparr>os := os w @ [Put (CHR '':''), Write (call_token e w)],
               level_stack :=
                 call_pushes e @ level\<lparr>valueCount := valueCount level + 1\<rparr> # rest\<rparr>)"
    by simp
next
  assume a: "level_stack w = level # rest \<and> \<not> inArray level \<and> valueCount level mod 2 \<noteq> 0 \<and>
    prefixed_call e \<and> indentCharCount w > 0"
  then have "level_stack w = level # rest" "\<not> inArray level" "valueCount level mod 2 \<noteq> 0"
    "prefixed_call e" by simp_all
  from call_at_value [OF this] a
  show "do_call e w =
        Inr (w\<lparr>os := os w @ [Put (CHR '':''), Put (CHR '' ''), Write (call_token e w)],
               level_stack :=
                 call_pushes e @ level\<lparr>valueCount := valueCount level + 1\<rparr> # rest\<rparr>)"
    by simp
next
  assume "indentCharCount w = 0"
  then show "WriteIndent w = Inr w"
    by (simp add: WriteIndent_eq compact_in_range compact_indent_text)
next
  assume "indentCharCount w = 0 \<and> do_calls cs w = Inr w'"
  then have "indentCharCount w = 0" and "do_calls cs w = Inr w'" by simp_all
  from do_calls_compact [OF this] obtain new where n: "os w' = os w @ new"
    and p: "\<forall>c. Put c \<in> set new \<longrightarrow> c \<in> set '',:NaN-Infinity''"
    by blast
  from p have "Put (CHR 0x0A) \<notin> set new" and "Put (CHR '' '') \<notin> set new" by auto
  with n p show "\<exists>new. os w' = os w @ new \<and>
         Put (CHR 0x0A) \<notin> set new \<and> Put (CHR '' '') \<notin> set new \<and>
         (\<forall>c. Put c \<in> set new \<longrightarrow> c \<in> set '',:NaN-Infinity'')"
    by blast
qed

theorem compact_mode_separators_witness:
  "do_call (IntCall 1)
     \<lparr>os = [Write WriteStartObject, Write (WriteString ''a'')],
      level_stack = [\<lparr>inArray = False, valueCount = 1\<rparr>],
      doublePrecision = 6, indentation = [], indentCharCount = 0\<rparr>
   = Inr \<lparr>os = [Write WriteStartObject, Write (WriteString ''a''), Put (CHR '':''),
                 Write (WriteInt 1)],
           level_stack = [\<lparr>inArray = False, valueCount = 2\<rparr>],
           doublePrecision = 6, indentation = [], indentCharCount = 0\<rparr> \<and>
   do_call (IntCall 1)
     \<lparr>os = [Write WriteStartObject, Put (CHR 0x0A), Put (CHR '' ''), Put (CHR '' ''),
             Write (WriteString ''a'')],
      level_stack = [\<lparr>inArray = False, valueCount = 1\<rparr>],
      doublePrecision = 6, indentation = ''  '', indentCharCount = 2\<rparr>
   = Inr \<lparr>os = [Write WriteStartObject, Put (CHR 0x0A), Put (CHR '' ''), Put (CHR '' ''),
                 Write (WriteString ''a''), Put (CHR '':''), Put (CHR '' ''),
                 Write (WriteInt 1)],
           level_stack = [\<lparr>inArray = False, valueCount = 2\<rparr>],
           doublePrecision = 6, indentation = ''  '', indentCharCount = 2\<rparr> \<and>
   WriteIndent
     \<lparr>os = [Write WriteStartObject, Write (WriteString ''a'')],
      level_stack = [\<lparr>inArray = False, valueCount = 1\<rparr>],
      doublePrecision = 6, indentation = [], indentCharCount = 0\<rparr>
   = Inr \<lparr>os = [Write WriteStartObject, Write (WriteString ''a'')],
           level_stack = [\<lparr>inArray = False, valueCount = 1\<rparr>],
           doublePrecision = 6, indentation = [], indentCharCount = 0\<rparr>"
  using compact_mode_separators
    [of "\<lparr>os = [Write WriteStartObject, Write (WriteString ''a'')],
          level_stack = [\<lparr>inArray = False, valueCount = 1\<rparr>],
          doublePrecision = 6, indentation = [], indentCharCount = 0\<rparr>"
        "\<lparr>inArray = False, valueCount = 1\<rparr>" "[]" "IntCall 1"]
    compact_mode_separators
    [of "\<lparr>os = [Write WriteStartObject, Put (CHR 0x0A), Put (CHR '' ''), Put (CHR '' ''),
                Write (WriteString ''a'')],
          level_stack = [\<lparr>inArray = False, valueCount = 1\<rparr>],
          doublePrecision = 6, indentation = ''  '', indentCharCount = 2\<rparr>"
        "\<lparr>inArray = False, valueCount = 1\<rparr>" "[]" "IntCall 1"]
  by (simp del: do_call.simps)

text \<open>
  C8, as stated, fails: after \<^verbatim>\<open>SetIndent("  ", 2)\<close>, with one open array,
  \<^verbatim>\<open>WriteIndent\<close> puts two spaces, where the unit of two spaces written twice for the
  level would be four.
\<close>

theorem WriteIndent_unit_counterexample:
  "do_calls [StartArrayCall] (SetIndent ''  '' 2 (PrettyWriter_new 6))
   = Inr \<lparr>os = [Write WriteStartArray],
           level_stack = [\<lparr>inArray = True, valueCount = 0\<rparr>],
           doublePrecision = 6, indentation = ''  '', indentCharCount = 2\<rparr> \<and>
   WriteIndent
     \<lparr>os = [Write WriteStartArray], level_stack = [\<lparr>inArray = True, valueCount = 0\<rparr>],
      doublePrecision = 6, indentation = ''  '', indentCharCount = 2\<rparr>
   = Inr \<lparr>os = [Write WriteStartArray, Put (CHR '' ''), Put (CHR '' '')],
           level_stack = [\<lparr>inArray = True, valueCount = 0\<rparr>],
           doublePrecision = 6, indentation = ''  '', indentCharCount = 2\<rparr> \<and>
   spec_indent_text ''  '' 2 1
   = [Put (CHR '' ''), Put (CHR '' ''), Put (CHR '' ''), Put (CHR '' '')] \<and>
   WriteIndent
     \<lparr>os = [Write WriteStartArray], level_stack = [\<lparr>inArray = True, valueCount = 0\<rparr>],
      doublePrecision = 6, indentation = ''  '', indentCharCount = 2\<rparr>
   \<noteq> Inr \<lparr>os = [Write WriteStartArray] @ spec_indent_text ''  '' 2 1,
           level_stack = [\<lparr>inArray = True, valueCount = 0\<rparr>],
           doublePrecision = 6, indentation = ''  '', indentCharCount = 2\<rparr>"
  by code_simp

text \<open>
  C8, amended. When the configured string holds at least \<^verbatim>\<open>indentCharCount_\<close> characters,
  every call of \<^verbatim>\<open>WriteIndent\<close> puts, once for each frame of the stack as it is at that
  call, the first \<^verbatim>\<open>indentCharCount_\<close> characters of the string: \<^verbatim>\<open>indentCharCount_\<close>
  characters for a level. From a writer at the root, 50 arrays opened one inside the
  other all open, and the value then emitted in the innermost one is indented by 50
  times \<^verbatim>\<open>indentCharCount_\<close> characters.
\<close>

theorem WriteIndent_chars_per_level:
  assumes "unat (indentCharCount w) \<le> length (indentation w)"
  shows "WriteIndent w =
           Inr (w\<lparr>os := os w @ map Put (concat (replicate (length (level_stack w))
                                   (take (unat (indentCharCount w)) (indentation w))))\<rparr>) \<and>
         (level_stack w = [] \<longrightarrow>
            (\<exists>w50 w51. do_calls (replicate 50 StartArrayCall) w = Inr w50 \<and>
               length (level_stack w50) = 50 \<and>
               do_call (IntCall i) w50 = Inr w51 \<and>
               os w51 = os w50
                 @ (if indentCharCount w > 0 then [Put (CHR 0x0A)] else [])
                 @ map Put (concat (replicate 50
                              (take (unat (indentCharCount w)) (indentation w))))
                 @ [Write (WriteInt i)] \<and>
               length (concat (replicate 50 (take (unat (indentCharCount w)) (indentation w))))
                 = 50 * unat (indentCharCount w)))"
proof (intro conjI impI)
  show "WriteIndent w =
           Inr (w\<lparr>os := os w @ map Put (concat (replicate (length (level_stack w))
                                   (take (unat (indentCharCount w)) (indentation w))))\<rparr>)"
    using assms
    by (simp add: WriteIndent_eq in_string_in_range indent_text_def level_indent_in_string)
next
  assume root: "level_stack w = []"
  then have "level_stack w = [] \<or> inArray (hd (level_stack w))" by simp
  from nested_arrays [OF in_string_in_range [OF assms] this, of 50] root
  obtain w50 where d: "do_calls (replicate 50 StartArrayCall) w = Inr w50"
    and l: "length (level_stack w50) = 50"
    and c: "indentation w50 = indentation w" "indentCharCount w50 = indentCharCount w"
    and a: "level_stack w50 = [] \<or> inArray (hd (level_stack w50))"
    and v: "valueCount (hd (level_stack w50)) = 0"
    by auto
  from l obtain level rest where st: "level_stack w50 = level # rest"
    by (cases "level_stack w50") auto
  with l a v have top: "inArray level" "valueCount level = 0" "Suc (length rest) = 50"
    by simp_all
  from assms c have in50: "unat (indentCharCount w50) \<le> length (indentation w50)" by simp
  have "do_call (IntCall i) w50 =
          Inr (w50\<lparr>os := os w50
                 @ (if indentCharCount w > 0 then [Put (CHR 0x0A)] else [])
                 @ map Put (concat (replicate 50
                              (take (unat (indentCharCount w)) (indentation w))))
                 @ [Write (WriteInt i)],
               level_stack := level\<lparr>valueCount := 1\<rparr> # rest\<rparr>)"
    using call_in_array [OF st top(1), of "IntCall i"] top(2,3) c
      in_string_in_range [OF in50] level_indent_in_string [OF in50]
    by (simp add: newline_text_def indent_text_def del: do_call.simps)
  moreover have "length (concat (replicate 50 (take (unat (indentCharCount w)) (indentation w))))
                 = 50 * unat (indentCharCount w)"
    using assms by (simp add: length_concat sum_list_replicate)
  ultimately show "\<exists>w50 w51. do_calls (replicate 50 StartArrayCall) w = Inr w50 \<and>
               length (level_stack w50) = 50 \<and>
               do_call (IntCall i) w50 = Inr w51 \<and>
               os w51 = os w50
                 @ (if indentCharCount w > 0 then [Put (CHR 0x0A)] else [])
                 @ map Put (concat (replicate 50
                              (take (unat (indentCharCount w)) (indentation w))))
                 @ [Write (WriteInt i)] \<and>
               length (concat (replicate 50 (take (unat (indentCharCount w)) (indentation w))))
                 = 50 * unat (indentCharCount w)"
    using d l by (auto simp del: do_call.simps)
qed

theorem WriteIndent_chars_per_level_witness:
  "unat (indentCharCount
      \<lparr>os = [Write WriteStartArray, Put (CHR 0x0A), Put (CHR 0x09), Write WriteStartArray],
       level_stack = [\<lparr>inArray = True, valueCount = 0\<rparr>, \<lparr>inArray = True, valueCount = 1\<rparr>],
       doublePrecision = 6, indentation = [CHR 0x09, CHR '' ''], indentCharCount = 1\<rparr>)
   \<le> length (indentation
      \<lparr>os = [Write WriteStartArray, Put (CHR 0x0A), Put (CHR 0x09), Write WriteStartArray],
       level_stack = [\<lparr>inArray = True, valueCount = 0\<rparr>, \<lparr>inArray = True, valueCount = 1\<rparr>],
       doublePrecision = 6, indentation = [CHR 0x09, CHR '' ''], indentCharCount = 1\<rparr>) \<and>
   WriteIndent
     \<lparr>os = [Write WriteStartArray, Put (CHR 0x0A), Put (CHR 0x09), Write WriteStartArray],
      level_stack = [\<lparr>inArray = True, valueCount = 0\<rparr>, \<lparr>inArray = True, valueCount = 1\<rparr>],
      doublePrecision = 6, indentation = [CHR 0x09, CHR '' ''], indentCharCount = 1\<rparr>
   = Inr \<lparr>os = [Write WriteStartArray, Put (CHR 0x0A), Put (CHR 0x09), Write WriteStartArray,
                 Put (CHR 0x09), Put (CHR 0x09)],
           level_stack = [\<lparr>inArray = True, valueCount = 0\<rparr>,
                          \<lparr>inArray = True, valueCount = 1\<rparr>],
           doublePrecision = 6, indentation = [CHR 0x09, CHR '' ''], indentCharCount = 1\<rparr>"
proof -
  have h: "unat (indentCharCount
      \<lparr>os = [Write WriteStartArray, Put (CHR 0x0A), Put (CHR 0x09), Write WriteStartArray],
       level_stack = [\<lparr>inArray = True, valueCount = 0\<rparr>, \<lparr>inArray = True, valueCount = 1\<rparr>],
       doublePrecision = 6, indentation = [CHR 0x09, CHR '' ''], indentCharCount = 1\<rparr>)
   \<le> length (indentation
      \<lparr>os = [Write WriteStartArray, Put (CHR 0x0A), Put (CHR 0x09), Write WriteStartArray],
       level_stack = [\<lparr>inArray = True, valueCount = 0\<rparr>, \<lparr>inArray = True, valueCount = 1\<rparr>],
       doublePrecision = 6, indentation = [CHR 0x09, CHR '' ''], indentCharCount = 1\<rparr>)"
    by simp
  from WriteIndent_chars_per_level [OF h, THEN conjunct1] h show ?thesis
    by simp
qed

end
